theory Spec2Isabelle
  imports Main "HOL-Library.Log_Nat"
begin

section \<open>JavaScript values, numbers and strings\<close>

text \<open>
  The content-moderation engine lives in \<^verbatim>\<open>src/services/moderationService.js\<close> and the
  sanitizer in \<^verbatim>\<open>src/utils/moderation.js\<close>. Both are JavaScript, so three things that
  the language does silently are written out here:
  \<^item> a value handed to \<^verbatim>\<open>scan\<close> can be anything, so the fields of its argument are
    values of \<open>jsval\<close> and the guard \<^verbatim>\<open>!text || typeof text !== 'string'\<close> is a function
    on them;
  \<^item> every number is an IEEE binary64; a score is modelled by the rational it denotes and
    each arithmetic operation rounds its exact result to the nearest binary64 (ties to
    even). Comparisons are exact, as they are on doubles. The sums of this file are far
    below the overflow threshold, so infinities and NaN do not occur and are not modelled;
  \<^item> a string is a sequence of code units; the model keeps the code units below 256
    (\<open>char\<close>), read as Latin-1.
\<close>

datatype jsval =
    JUndefined
  | JNull
  | JBool bool
  | JNumber rat
  | JString string
  | JObject "(string \<times> jsval) list"

fun truthy :: "jsval \<Rightarrow> bool" where
  "truthy JUndefined = False"
| "truthy JNull = False"
| "truthy (JBool b) = b"
| "truthy (JNumber n) = (n \<noteq> 0)"
| "truthy (JString s) = (s \<noteq> [])"
| "truthy (JObject kvs) = True"

fun isString :: "jsval \<Rightarrow> bool" where
  "isString (JString s) = True"
| "isString v = False"

subsection \<open>Binary64 arithmetic\<close>

definition ilog2 :: "rat \<Rightarrow> int" where
  "ilog2 x = (let (a, b) = quotient_of x; e0 = bitlen a - bitlen b
              in if 2 powi e0 \<le> x then e0 else e0 - 1)"

definition round_half_even :: "rat \<Rightarrow> int" where
  "round_half_even x = (let f = \<lfloor>x\<rfloor>; d = x - of_int f
     in if d < 1 / 2 then f else if 1 / 2 < d then f + 1 else if even f then f else f + 1)"

text \<open>\<open>binary64 x\<close> is the double nearest to \<open>x\<close>: 53 significant bits, the exponent not
  below that of the subnormals. A decimal literal of the source, such as \<^verbatim>\<open>0.8\<close>, is
  \<open>binary64 (8 / 10)\<close>.\<close>

definition binary64 :: "rat \<Rightarrow> rat" where
  "binary64 x = (if x = 0 then 0 else
     let q = max (ilog2 \<bar>x\<bar> - 52) (- 1074)
     in of_int (round_half_even (x / 2 powi q)) * 2 powi q)"

definition fadd :: "rat \<Rightarrow> rat \<Rightarrow> rat" where
  "fadd a b = binary64 (a + b)"

definition fmul :: "rat \<Rightarrow> rat \<Rightarrow> rat" where
  "fmul a b = binary64 (a * b)"

definition fdiv :: "rat \<Rightarrow> rat \<Rightarrow> rat" where
  "fdiv a b = binary64 (a / b)"

subsection \<open>Characters and strings\<close>

definition code_unit :: "char \<Rightarrow> int" where
  "code_unit c = of_char c"

definition isDigit :: "char \<Rightarrow> bool" where
  "isDigit c = (48 \<le> code_unit c \<and> code_unit c \<le> 57)"

definition isUpperAZ :: "char \<Rightarrow> bool" where
  "isUpperAZ c = (65 \<le> code_unit c \<and> code_unit c \<le> 90)"

definition isLowerAZ :: "char \<Rightarrow> bool" where
  "isLowerAZ c = (97 \<le> code_unit c \<and> code_unit c \<le> 122)"

text \<open>\<^verbatim>\<open>\w\<close> is \<^verbatim>\<open>[A-Za-z0-9_]\<close>; \<^verbatim>\<open>\s\<close> and \<^verbatim>\<open>trim\<close> know the white space and line
  terminators of ECMAScript, of which tab, LF, VT, FF, CR, space and NBSP are below 256;
  \<^verbatim>\<open>.\<close> matches everything but a line terminator.\<close>

definition isWordChar :: "char \<Rightarrow> bool" where
  "isWordChar c = (isDigit c \<or> isUpperAZ c \<or> isLowerAZ c \<or> c = CHR ''_'')"

definition isSpaceJS :: "char \<Rightarrow> bool" where
  "isSpaceJS c = (code_unit c \<in> {9, 10, 11, 12, 13, 32, 160})"

definition isLineTerminator :: "char \<Rightarrow> bool" where
  "isLineTerminator c = (code_unit c \<in> {10, 13})"

definition toLowerChar :: "char \<Rightarrow> char" where
  "toLowerChar c = (let n = code_unit c in
     if (65 \<le> n \<and> n \<le> 90) \<or> (192 \<le> n \<and> n \<le> 222 \<and> n \<noteq> 215)
     then char_of (n + 32) else c)"

definition toUpperChar :: "char \<Rightarrow> char" where
  "toUpperChar c = (let n = code_unit c in
     if (97 \<le> n \<and> n \<le> 122) \<or> (224 \<le> n \<and> n \<le> 254 \<and> n \<noteq> 247)
     then char_of (n - 32) else c)"

definition toLowerCase :: "string \<Rightarrow> string" where
  "toLowerCase s = map toLowerChar s"

definition startsWith :: "string \<Rightarrow> string \<Rightarrow> bool" where
  "startsWith s k = (take (length k) s = k)"

definition endsWith :: "string \<Rightarrow> string \<Rightarrow> bool" where
  "endsWith s k = (length k \<le> length s \<and> drop (length s - length k) s = k)"

primrec str_includes :: "string \<Rightarrow> string \<Rightarrow> bool" where
  "str_includes [] k = (k = [])"
| "str_includes (c # cs) k = (startsWith (c # cs) k \<or> str_includes cs k)"

text \<open>\<^verbatim>\<open>indexOf\<close> answers \<^verbatim>\<open>-1\<close> when there is no occurrence: \<open>None\<close> here.\<close>

primrec indexOf :: "string \<Rightarrow> string \<Rightarrow> nat option" where
  "indexOf [] k = (if k = [] then Some 0 else None)"
| "indexOf (c # cs) k =
     (if startsWith (c # cs) k then Some 0 else map_option Suc (indexOf cs k))"

definition indexOfInt :: "string \<Rightarrow> string \<Rightarrow> int" where
  "indexOfInt s k = (case indexOf s k of None \<Rightarrow> - 1 | Some i \<Rightarrow> int i)"

definition substring :: "string \<Rightarrow> nat \<Rightarrow> nat \<Rightarrow> string" where
  "substring s a b = take (max a b - min a b) (drop (min a b) s)"

text \<open>\<^verbatim>\<open>s[i]\<close> is \<^verbatim>\<open>undefined\<close> outside the string.\<close>

definition charAt :: "string \<Rightarrow> int \<Rightarrow> string option" where
  "charAt s i = (if 0 \<le> i \<and> i < int (length s) then Some [s ! nat i] else None)"

definition trim :: "string \<Rightarrow> string" where
  "trim s = rev (dropWhile isSpaceJS (rev (dropWhile isSpaceJS s)))"

section \<open>Regular expressions\<close>

text \<open>
  The detectors are tables of regular expressions. Their syntax trees are written out
  below and run by a backtracking matcher that follows the pattern semantics of
  ECMAScript (section 22.2.2): a matcher maps a state to the list of states it can end
  in, in the order in which backtracking tries them, so the head of the list is the match
  that \<^verbatim>\<open>exec\<close> reports. A state is the character just before the current position (for
  \<^verbatim>\<open>\b\<close>), the rest of the input and the captures so far.

  \<open>Cls neg P\<close> is a character class (\<open>neg\<close> for \<^verbatim>\<open>[^...]\<close>), \<open>Rep mn mx greedy r\<close> the
  quantifier \<^verbatim>\<open>{mn,mx}\<close> (\<open>None\<close>: no upper bound), \<open>Grp n r\<close> the n-th capture group,
  \<open>Bref n\<close> the back reference \<^verbatim>\<open>\n\<close> and \<open>WordB\<close> the assertion \<^verbatim>\<open>\b\<close>. The flag
  \<^verbatim>\<open>i\<close> is the argument \<open>ic\<close> of the matcher. No quantified atom of the source's patterns
  holds a capture group, so the reset of captures at each iteration has nothing to clear
  and is left out.
\<close>

datatype regex =
    Cls bool "char \<Rightarrow> bool"
  | Eps
  | Seq regex regex
  | Alt regex regex
  | Rep nat "nat option" bool regex
  | Grp nat regex
  | Bref nat
  | WordB

type_synonym captures = "(nat \<times> string) list"

type_synonym mstate = "char option \<times> string \<times> captures"

text \<open>Under \<^verbatim>\<open>i\<close> a character matches a class when its canonical form is that of a
  member; below 256 two characters have the same canonical form exactly when they are
  equal up to case.\<close>

definition classMatch :: "bool \<Rightarrow> (char \<Rightarrow> bool) \<Rightarrow> char \<Rightarrow> bool" where
  "classMatch ic P c = (if ic then P c \<or> P (toLowerChar c) \<or> P (toUpperChar c) else P c)"

definition sameText :: "bool \<Rightarrow> string \<Rightarrow> string \<Rightarrow> bool" where
  "sameText ic a b = (if ic then map toUpperChar a = map toUpperChar b else a = b)"

definition isWordOpt :: "char option \<Rightarrow> bool" where
  "isWordOpt p = (case p of None \<Rightarrow> False | Some c \<Rightarrow> isWordChar c)"

definition nextChar :: "string \<Rightarrow> char option" where
  "nextChar s = (case s of [] \<Rightarrow> None | c # cs \<Rightarrow> Some c)"

definition decMax :: "nat option \<Rightarrow> nat option" where
  "decMax mx = (case mx of None \<Rightarrow> None | Some n \<Rightarrow> Some (n - 1))"

text \<open>The RepeatMatcher: once the minimum is reached, an iteration that consumed nothing
  is abandoned, which is what makes the recursion end. A matcher never gives input back
  (lemma \<open>mt_consuming\<close> below), so ``not shorter'' is ``as long as before''.\<close>

function rep :: "(mstate \<Rightarrow> mstate list) \<Rightarrow> nat \<Rightarrow> nat option \<Rightarrow> bool \<Rightarrow> mstate \<Rightarrow> mstate list" where
  "rep f mn mx g (prev, [], caps) =
     (if mx = Some 0 then [(prev, [], caps)]
      else let its = concat (map (\<lambda>(p', r', c').
                        if mn = 0 then []
                        else rep f (mn - 1) (decMax mx) g (p', r', c'))
                      (f (prev, [], caps)))
           in if mn \<noteq> 0 then its
              else if g then its @ [(prev, [], caps)] else (prev, [], caps) # its)"
| "rep f mn mx g (prev, x # xs, caps) =
     (if mx = Some 0 then [(prev, x # xs, caps)]
      else let its = concat (map (\<lambda>(p', r', c').
                        if mn = 0 \<and> \<not> length r' < length (x # xs) then []
                        else rep f (mn - 1) (decMax mx) g (p', r', c'))
                      (f (prev, x # xs, caps)))
           in if mn \<noteq> 0 then its
              else if g then its @ [(prev, x # xs, caps)] else (prev, x # xs, caps) # its)"
  by pat_completeness auto
termination
  by (relation "measures [\<lambda>(f, mn, mx, g, p, r, c). mn, \<lambda>(f, mn, mx, g, p, r, c). length r]")
     auto

fun mt :: "bool \<Rightarrow> regex \<Rightarrow> mstate \<Rightarrow> mstate list" where
  "mt ic (Cls neg P) (prev, rest, caps) =
     (case rest of [] \<Rightarrow> []
      | c # cs \<Rightarrow> if classMatch ic P c \<noteq> neg then [(Some c, cs, caps)] else [])"
| "mt ic Eps st = [st]"
| "mt ic (Seq a b) st = concat (map (\<lambda>s. mt ic b s) (mt ic a st))"
| "mt ic (Alt a b) st = mt ic a st @ mt ic b st"
| "mt ic (Rep mn mx g r) st = rep (\<lambda>s. mt ic r s) mn mx g st"
| "mt ic (Grp n r) (prev, rest, caps) =
     map (\<lambda>(p', r', c'). (p', r', (n, take (length rest - length r') rest) # c'))
         (mt ic r (prev, rest, caps))"
| "mt ic (Bref n) (prev, rest, caps) =
     (case map_of caps n of None \<Rightarrow> [(prev, rest, caps)]
      | Some s \<Rightarrow>
          if s = [] then [(prev, rest, caps)]
          else if length s \<le> length rest \<and> sameText ic (take (length s) rest) s
               then [(Some (last (take (length s) rest)), drop (length s) rest, caps)]
               else [])"
| "mt ic WordB (prev, rest, caps) =
     (if isWordOpt prev \<noteq> isWordOpt (nextChar rest) then [(prev, rest, caps)] else [])"

text \<open>\<^verbatim>\<open>regex.test(s)\<close> without the flag \<^verbatim>\<open>g\<close>: is there a position where the pattern
  matches.\<close>

primrec test_from :: "bool \<Rightarrow> regex \<Rightarrow> char option \<Rightarrow> string \<Rightarrow> bool" where
  "test_from ic r prev [] = (mt ic r (prev, [], []) \<noteq> [])"
| "test_from ic r prev (c # cs) =
     (mt ic r (prev, c # cs, []) \<noteq> [] \<or> test_from ic r (Some c) cs)"

definition test :: "bool \<Rightarrow> regex \<Rightarrow> string \<Rightarrow> bool" where
  "test ic r s = test_from ic r None s"

text \<open>\<^verbatim>\<open>s.match(regex)\<close> with the flag \<^verbatim>\<open>g\<close>: the matched substrings from left to right,
  each search starting where the last match ended, one code unit further after an empty
  match. JavaScript answers \<^verbatim>\<open>null\<close> rather than an empty array: \<open>[]\<close> here, and
  \<^verbatim>\<open>if (matches)\<close> is \<open>matches \<noteq> []\<close>. \<open>skip\<close> counts the characters of the last match
  that are still to be passed.\<close>

primrec matches_from :: "bool \<Rightarrow> regex \<Rightarrow> char option \<Rightarrow> nat \<Rightarrow> string \<Rightarrow> string list" where
  "matches_from ic r prev skip [] =
     (if skip = 0 \<and> mt ic r (prev, [], []) \<noteq> [] then [[]] else [])"
| "matches_from ic r prev skip (c # cs) =
     (if 0 < skip then matches_from ic r (Some c) (skip - 1) cs
      else case mt ic r (prev, c # cs, []) of
             [] \<Rightarrow> matches_from ic r (Some c) 0 cs
           | (p', r', c') # other \<Rightarrow>
               (let n = length (c # cs) - length r'
                in take n (c # cs) # matches_from ic r (Some c) (n - 1) cs))"

definition match_global :: "bool \<Rightarrow> regex \<Rightarrow> string \<Rightarrow> string list" where
  "match_global ic r s = matches_from ic r None 0 s"

text \<open>\<^verbatim>\<open>s.replace(regex, template)\<close> with the flag \<^verbatim>\<open>g\<close>. A template is a list of
  literal pieces and group references (\<^verbatim>\<open>$1\<close>); a group that did not take part expands
  to the empty string.\<close>

datatype piece = Lit string | Ref nat

definition expand :: "piece list \<Rightarrow> captures \<Rightarrow> string" where
  "expand tmpl caps =
     concat (map (\<lambda>p. case p of Lit s \<Rightarrow> s
                       | Ref n \<Rightarrow> (case map_of caps n of None \<Rightarrow> [] | Some s \<Rightarrow> s)) tmpl)"

primrec replace_from :: "bool \<Rightarrow> regex \<Rightarrow> piece list \<Rightarrow> char option \<Rightarrow> nat \<Rightarrow> string \<Rightarrow> string" where
  "replace_from ic r tmpl prev skip [] =
     (if skip = 0 then (case mt ic r (prev, [], []) of [] \<Rightarrow> []
                        | (p', r', c') # other \<Rightarrow> expand tmpl c')
      else [])"
| "replace_from ic r tmpl prev skip (c # cs) =
     (if 0 < skip then replace_from ic r tmpl (Some c) (skip - 1) cs
      else case mt ic r (prev, c # cs, []) of
             [] \<Rightarrow> c # replace_from ic r tmpl (Some c) 0 cs
           | (p', r', c') # other \<Rightarrow>
               (let n = length (c # cs) - length r'
                in expand tmpl c' @
                   (if n = 0 then c # replace_from ic r tmpl (Some c) 0 cs
                    else replace_from ic r tmpl (Some c) (n - 1) cs)))"

definition replace_global :: "bool \<Rightarrow> regex \<Rightarrow> piece list \<Rightarrow> string \<Rightarrow> string" where
  "replace_global ic r tmpl s = replace_from ic r tmpl None 0 s"

subsection \<open>Notation of the patterns\<close>

definition rChar :: "char \<Rightarrow> regex" where
  "rChar c = Cls False (\<lambda>x. x = c)"

definition rDigit :: regex where
  "rDigit = Cls False isDigit"

definition rSpace :: regex where
  "rSpace = Cls False isSpaceJS"

definition rAny :: regex where
  "rAny = Cls False (\<lambda>x. \<not> isLineTerminator x)"

definition rOpt :: "regex \<Rightarrow> regex" where
  "rOpt r = Rep 0 (Some 1) True r"

definition rStar :: "regex \<Rightarrow> regex" where
  "rStar r = Rep 0 None True r"

definition rPlus :: "regex \<Rightarrow> regex" where
  "rPlus r = Rep 1 None True r"

definition rTimes :: "nat \<Rightarrow> regex \<Rightarrow> regex" where
  "rTimes n r = Rep n (Some n) True r"

definition rBetween :: "nat \<Rightarrow> nat \<Rightarrow> regex \<Rightarrow> regex" where
  "rBetween m n r = Rep m (Some n) True r"

definition rAtLeast :: "nat \<Rightarrow> regex \<Rightarrow> regex" where
  "rAtLeast n r = Rep n None True r"

primrec rLit :: "string \<Rightarrow> regex" where
  "rLit [] = Eps"
| "rLit (c # cs) = Seq (rChar c) (rLit cs)"

primrec rSeqs :: "regex list \<Rightarrow> regex" where
  "rSeqs [] = Eps"
| "rSeqs (r # rs) = Seq r (rSeqs rs)"

fun rAlts :: "regex list \<Rightarrow> regex" where
  "rAlts [] = Cls False (\<lambda>x. False)"
| "rAlts [r] = r"
| "rAlts (r # rs) = Alt r (rAlts rs)"

section \<open>The pattern tables of the moderation service\<close>

record pattern =
  p_regex :: regex
  p_ignoreCase :: bool
  p_type :: string
  p_weight :: rat

definition phoneSep :: regex where
  "phoneSep = Cls False (\<lambda>c. c = CHR ''-'' \<or> c = CHR ''.'' \<or> isSpaceJS c)"

text \<open>\<^verbatim>\<open>/\b\d{3}[-.\s]?\d{3}[-.\s]?\d{4}\b/\<close>\<close>

definition phone_regex :: regex where
  "phone_regex = rSeqs [WordB, rTimes 3 rDigit, rOpt phoneSep, rTimes 3 rDigit, rOpt phoneSep,
                        rTimes 4 rDigit, WordB]"

text \<open>\<^verbatim>\<open>/\b\d{3}-\d{2}-\d{4}\b/\<close>\<close>

definition ssn_regex :: regex where
  "ssn_regex = rSeqs [WordB, rTimes 3 rDigit, rChar CHR ''-'', rTimes 2 rDigit, rChar CHR ''-'',
                      rTimes 4 rDigit, WordB]"

text \<open>\<^verbatim>\<open>/\b[A-Z0-9._%+-]+@[A-Z0-9.-]+\.[A-Z]{2,}\b/i\<close>\<close>

definition email_regex :: regex where
  "email_regex = rSeqs [WordB,
       rPlus (Cls False (\<lambda>c. isUpperAZ c \<or> isDigit c \<or> c \<in> set ''._%+-'')),
       rChar CHR ''@'',
       rPlus (Cls False (\<lambda>c. isUpperAZ c \<or> isDigit c \<or> c \<in> set ''.-'')),
       rChar CHR ''.'',
       rAtLeast 2 (Cls False isUpperAZ),
       WordB]"

text \<open>\<^verbatim>\<open>/\b\d{5}(?:-\d{4})?\b/\<close>\<close>

definition zip_regex :: regex where
  "zip_regex = rSeqs [WordB, rTimes 5 rDigit, rOpt (rSeqs [rChar CHR ''-'', rTimes 4 rDigit]),
                      WordB]"

text \<open>\<^verbatim>\<open>/\b\d{1,2}\/\d{1,2}\/\d{2,4}\b/\<close>\<close>

definition date_regex :: regex where
  "date_regex = rSeqs [WordB, rBetween 1 2 rDigit, rChar CHR ''/'', rBetween 1 2 rDigit,
                       rChar CHR ''/'', rBetween 2 4 rDigit, WordB]"

text \<open>\<^verbatim>\<open>/\b(?:street|st\.?|road|rd\.?|avenue|ave\.?|drive|dr\.?|lane|ln\.?|boulevard|blvd\.?)\s+[\w\s]+\d+/i\<close>\<close>

definition abbrev :: "string \<Rightarrow> regex" where
  "abbrev s = Seq (rLit s) (rOpt (rChar CHR ''.''))"

definition address_regex :: regex where
  "address_regex = rSeqs [WordB,
       rAlts [rLit ''street'', abbrev ''st'', rLit ''road'', abbrev ''rd'', rLit ''avenue'',
              abbrev ''ave'', rLit ''drive'', abbrev ''dr'', rLit ''lane'', abbrev ''ln'',
              rLit ''boulevard'', abbrev ''blvd''],
       rPlus rSpace,
       rPlus (Cls False (\<lambda>c. isWordChar c \<or> isSpaceJS c)),
       rPlus rDigit]"

text \<open>\<^verbatim>\<open>/\b(?:medical record|patient id|mrn|medical record number)\s*:?\s*\d+/i\<close>\<close>

definition medical_regex :: regex where
  "medical_regex = rSeqs [WordB,
       rAlts [rLit ''medical record'', rLit ''patient id'', rLit ''mrn'',
              rLit ''medical record number''],
       rStar rSpace, rOpt (rChar CHR '':''), rStar rSpace, rPlus rDigit]"

definition PHI_PATTERNS :: "pattern list" where
  "PHI_PATTERNS =
    [\<lparr>p_regex = phone_regex, p_ignoreCase = False, p_type = ''phone'',
      p_weight = binary64 (8 / 10)\<rparr>,
     \<lparr>p_regex = ssn_regex, p_ignoreCase = False, p_type = ''ssn'', p_weight = 1\<rparr>,
     \<lparr>p_regex = email_regex, p_ignoreCase = True, p_type = ''email'',
      p_weight = binary64 (6 / 10)\<rparr>,
     \<lparr>p_regex = zip_regex, p_ignoreCase = False, p_type = ''zip'',
      p_weight = binary64 (5 / 10)\<rparr>,
     \<lparr>p_regex = date_regex, p_ignoreCase = False, p_type = ''date'',
      p_weight = binary64 (4 / 10)\<rparr>,
     \<lparr>p_regex = address_regex, p_ignoreCase = True, p_type = ''address'',
      p_weight = binary64 (7 / 10)\<rparr>,
     \<lparr>p_regex = medical_regex, p_ignoreCase = True, p_type = ''medical_record'',
      p_weight = binary64 (9 / 10)\<rparr>]"

definition SALES_KEYWORDS :: "string list" where
  "SALES_KEYWORDS =
    [''buy now'', ''purchase'', ''special offer'', ''limited time'', ''act now'',
     ''call now'', ''dm me'', ''message me'', ''contact me for'', ''for sale'',
     ''discount'', ''deal'', ''cheap'', ''affordable'', ''best price'', ''lowest price'']"

text \<open>\<^verbatim>\<open>/(.)\1{4,}/\<close>\<close>

definition repeated_chars_regex :: regex where
  "repeated_chars_regex = Seq (Grp 1 rAny) (rAtLeast 4 (Bref 1))"

text \<open>\<^verbatim>\<open>/\b(?:click here|visit|check out|link in bio)\s+https?:\/\//i\<close>\<close>

definition link_spam_regex :: regex where
  "link_spam_regex = rSeqs [WordB,
       rAlts [rLit ''click here'', rLit ''visit'', rLit ''check out'', rLit ''link in bio''],
       rPlus rSpace, rLit ''http'', rOpt (rChar CHR ''s''), rLit ''://'']"

text \<open>\<^verbatim>\<open>/(?:www\.|http)/i\<close>\<close>

definition urls_regex :: regex where
  "urls_regex = rAlts [rLit ''www.'', rLit ''http'']"

text \<open>\<^verbatim>\<open>/\b(free|win|prize|congratulations)\s+(?:click|visit|call)/i\<close>\<close>

definition scam_keywords_regex :: regex where
  "scam_keywords_regex = rSeqs [WordB,
       Grp 1 (rAlts [rLit ''free'', rLit ''win'', rLit ''prize'', rLit ''congratulations'']),
       rPlus rSpace,
       rAlts [rLit ''click'', rLit ''visit'', rLit ''call'']]"

definition SPAM_PATTERNS :: "pattern list" where
  "SPAM_PATTERNS =
    [\<lparr>p_regex = repeated_chars_regex, p_ignoreCase = False, p_type = ''repeated_chars'',
      p_weight = binary64 (3 / 10)\<rparr>,
     \<lparr>p_regex = link_spam_regex, p_ignoreCase = True, p_type = ''link_spam'',
      p_weight = binary64 (7 / 10)\<rparr>,
     \<lparr>p_regex = urls_regex, p_ignoreCase = True, p_type = ''urls'',
      p_weight = binary64 (5 / 10)\<rparr>,
     \<lparr>p_regex = scam_keywords_regex, p_ignoreCase = True, p_type = ''scam_keywords'',
      p_weight = binary64 (8 / 10)\<rparr>]"

text \<open>\<^verbatim>\<open>/https?:\/\/[^\s]+/i\<close> and
  \<^verbatim>\<open>/\b(?:www\.)?[a-zA-Z0-9][a-zA-Z0-9-]{1,61}[a-zA-Z0-9]\.[a-zA-Z]{2,}/i\<close>\<close>

definition link_url_regex :: regex where
  "link_url_regex = rSeqs [rLit ''http'', rOpt (rChar CHR ''s''), rLit ''://'',
                           rPlus (Cls True isSpaceJS)]"

definition isAlnum :: "char \<Rightarrow> bool" where
  "isAlnum c = (isLowerAZ c \<or> isUpperAZ c \<or> isDigit c)"

definition link_domain_regex :: regex where
  "link_domain_regex = rSeqs [WordB, rOpt (rLit ''www.''), Cls False isAlnum,
       rBetween 1 61 (Cls False (\<lambda>c. isAlnum c \<or> c = CHR ''-'')), Cls False isAlnum,
       rChar CHR ''.'', rAtLeast 2 (Cls False (\<lambda>c. isLowerAZ c \<or> isUpperAZ c))]"

section \<open>The detectors\<close>

record scored =
  score :: rat

record detection =
  d_type :: string
  d_matches :: "string list"
  d_weight :: rat

record phiResult = scored +
  detections :: "detection list"

text \<open>The loop of \<^verbatim>\<open>detectPHI\<close> over \<^verbatim>\<open>PHI_PATTERNS\<close>; the accumulator is the pair
  \<^verbatim>\<open>(detections, phiScore)\<close>.\<close>

fun phiLoop :: "string \<Rightarrow> pattern list \<Rightarrow> detection list \<times> rat \<Rightarrow> detection list \<times> rat" where
  "phiLoop text [] acc = acc"
| "phiLoop text (p # ps) (dets, phiScore) =
     (let matches = match_global (p_ignoreCase p) (p_regex p) text
      in if matches \<noteq> []
         then phiLoop text ps
                (dets @ [\<lparr>d_type = p_type p, d_matches = matches, d_weight = p_weight p\<rparr>],
                 fadd phiScore (fmul (p_weight p) (of_nat (length matches))))
         else phiLoop text ps (dets, phiScore))"

text \<open>The second loop re-validates every phone-shaped substring. The validator is the
  \<^verbatim>\<open>isValidPhoneNumber\<close> of the library \<^verbatim>\<open>libphonenumber-js\<close> when it can be loaded; it
  is a parameter here, \<open>None\<close> standing for a call that throws (the source catches it).\<close>

fun phoneLoop :: "(string \<Rightarrow> string \<Rightarrow> bool option) \<Rightarrow> string list \<Rightarrow>
    detection list \<times> rat \<Rightarrow> detection list \<times> rat" where
  "phoneLoop valid [] acc = acc"
| "phoneLoop valid (phone # others) (dets, phiScore) =
     (if valid phone ''US'' = Some True
      then phoneLoop valid others
             (dets @ [\<lparr>d_type = ''validated_phone'', d_matches = [phone],
                       d_weight = binary64 (9 / 10)\<rparr>],
              fadd phiScore (binary64 (9 / 10)))
      else phoneLoop valid others (dets, phiScore))"

text \<open>\<open>phiTotal\<close> is the state of \<^verbatim>\<open>detections\<close> and \<^verbatim>\<open>phiScore\<close> just before the
  \<^verbatim>\<open>return\<close>, that is, before the cap.\<close>

definition phiTotal :: "(string \<Rightarrow> string \<Rightarrow> bool option) \<Rightarrow> string \<Rightarrow> detection list \<times> rat" where
  "phiTotal valid text =
     phoneLoop valid (match_global False phone_regex text) (phiLoop text PHI_PATTERNS ([], 0))"

definition detectPHI :: "(string \<Rightarrow> string \<Rightarrow> bool option) \<Rightarrow> string \<Rightarrow> phiResult" where
  "detectPHI valid text =
     \<lparr>score = min (snd (phiTotal valid text)) 1, detections = fst (phiTotal valid text)\<rparr>"

text \<open>The validator the source falls back to when the library is missing.\<close>

definition fallback_isValidPhoneNumber :: "string \<Rightarrow> string \<Rightarrow> bool option" where
  "fallback_isValidPhoneNumber phone region = Some (test False phone_regex phone)"

record salesResult = scored +
  matches :: "string list"

fun salesLoop :: "string \<Rightarrow> string list \<Rightarrow> string list \<times> rat \<Rightarrow> string list \<times> rat" where
  "salesLoop lowerText [] acc = acc"
| "salesLoop lowerText (keyword # ks) (ms, salesScore) =
     (if str_includes lowerText keyword
      then salesLoop lowerText ks (ms @ [keyword], fadd salesScore (binary64 (2 / 10)))
      else salesLoop lowerText ks (ms, salesScore))"

definition detectSalesPitch :: "string \<Rightarrow> salesResult" where
  "detectSalesPitch text =
     (let r = salesLoop (toLowerCase text) SALES_KEYWORDS ([], 0)
      in \<lparr>score = min (snd r) 1, matches = fst r\<rparr>)"

record spamResult = scored +
  spam_detections :: "(string \<times> nat) list"

fun spamLoop :: "string \<Rightarrow> pattern list \<Rightarrow> (string \<times> nat) list \<times> rat \<Rightarrow>
    (string \<times> nat) list \<times> rat" where
  "spamLoop text [] acc = acc"
| "spamLoop text (p # ps) (dets, spamScore) =
     (let ms = match_global (p_ignoreCase p) (p_regex p) text
      in if ms \<noteq> []
         then spamLoop text ps
                (dets @ [(p_type p, length ms)],
                 fadd spamScore (fmul (p_weight p) (of_nat (min (length ms) 3))))
         else spamLoop text ps (dets, spamScore))"

definition detectSpam :: "string \<Rightarrow> spamResult" where
  "detectSpam text =
     (let r = spamLoop text SPAM_PATTERNS ([], 0)
      in \<lparr>score = min (snd r) 1, spam_detections = fst r\<rparr>)"

record linkResult = scored +
  urls :: nat
  domains :: nat

definition suspiciousDomains :: "string list" where
  "suspiciousDomains = [''bit.ly'', ''tinyurl'', ''t.co'', ''goo.gl'']"

definition linkRisk :: "string \<Rightarrow> rat" where
  "linkRisk text =
     (let us = match_global True link_url_regex text;
          ds = match_global True link_domain_regex text;
          s1 = fadd 0 (fmul (of_nat (length us)) (binary64 (3 / 10)));
          s2 = fadd s1 (fmul (of_nat (length ds)) (binary64 (1 / 10)));
          hasSuspicious = list_ex (\<lambda>url. list_ex (\<lambda>dom. str_includes url dom) suspiciousDomains) us
      in if hasSuspicious then fadd s2 (binary64 (4 / 10)) else s2)"

definition detectLinks :: "string \<Rightarrow> linkResult" where
  "detectLinks text =
     \<lparr>score = min (linkRisk text) 1,
      urls = length (match_global True link_url_regex text),
      domains = length (match_global True link_domain_regex text)\<rparr>"

subsection \<open>Toxicity\<close>

text \<open>\<^verbatim>\<open>normalizeTextForDetection\<close>: lower case, then the separators are deleted
  (\<^verbatim>\<open>/[\s\-_\.\*\+\#\@\!]/g\<close>), then eleven single-character replacements in the
  source's order, then \<^verbatim>\<open>/(.)\1{2,}/g\<close> is replaced by \<^verbatim>\<open>$1$1\<close>.\<close>

definition separators_regex :: regex where
  "separators_regex = Cls False (\<lambda>c. isSpaceJS c \<or> c \<in> set ''-_.*+#@!'')"

definition leetTable :: "(char \<times> string) list" where
  "leetTable =
    [(CHR ''0'', ''o''), (CHR ''1'', ''i''), (CHR ''3'', ''e''), (CHR ''4'', ''a''),
     (CHR ''5'', ''s''), (CHR ''7'', ''t''), (CHR ''8'', ''b''), (CHR ''9'', ''g''),
     (CHR ''$'', ''s''), (CHR ''!'', ''i''), (CHR ''@'', ''a'')]"

definition repeats_regex :: regex where
  "repeats_regex = Seq (Grp 1 rAny) (rAtLeast 2 (Bref 1))"

definition normalizeTextForDetection :: "string \<Rightarrow> string" where
  "normalizeTextForDetection text =
     (if text = [] then []
      else let n0 = toLowerCase text;
               n1 = replace_global False separators_regex [] n0;
               n2 = foldl (\<lambda>n (c, r). replace_global False (rChar c) [Lit r] n) n1 leetTable
           in replace_global False repeats_regex [Ref 1, Ref 1] n2)"

definition profanityPatterns :: "string list" where
  "profanityPatterns =
    [''masturbat'', ''mastrbat'', ''mstrbat'',
     ''nigger'', ''nigga'', ''niga'', ''ngga'', ''nger'',
     ''bastard'', ''bastrd'', ''bstrd'',
     ''violence'', ''vlnce'', ''violnc'',
     ''suicide'', ''suicid'', ''sucide'',
     ''murder'', ''murdr'', ''mrdr'',
     ''orgasm'', ''orgsm'', ''orgas'',
     ''erotic'', ''erotc'', ''erotik'',
     ''porn'', ''prn'', ''p0rn'', ''pornn'',
     ''naked'', ''nakd'', ''nked'',
     ''retard'', ''retrd'', ''rtard'', ''retad'',
     ''bitch'', ''bich'', ''bitchh'', ''btch'',
     ''pussy'', ''puss'', ''pusy'', ''pssy'',
     ''whore'', ''whor'', ''hore'', ''whoar'',
     ''abuse'', ''abus'', ''abse'',
     ''stupid'', ''stpid'', ''stupd'',
     ''idiot'', ''idot'', ''idit'',
     ''moron'', ''mron'', ''morrn'',
     ''fuck'', ''fuk'', ''fcuk'', ''fuc'', ''fuq'',
     ''shit'', ''sht'', ''shyt'', ''shitt'',
     ''damn'', ''damm'', ''dam'',
     ''crap'', ''crp'', ''krap'',
     ''piss'', ''pis'', ''pss'',
     ''dick'', ''dik'', ''dck'', ''dic'',
     ''cock'', ''cok'', ''kok'', ''cokc'',
     ''cunt'', ''cnt'', ''kunt'',
     ''slut'', ''slt'', ''slutt'',
     ''nude'', ''nud'', ''nudee'',
     ''kill'', ''kil'', ''kll'',
     ''hate'', ''hat'', ''hte'',
     ''rape'', ''rap'', ''rpe'',
     ''dumb'', ''dmb'', ''dum'',
     ''ass'', ''arse'',
     ''sex'', ''sx'', ''sexx'', ''seks'']"

text \<open>\<^verbatim>\<open>/[a-z0-9]/.test(v)\<close>. The argument is converted to a string first, so
  \<^verbatim>\<open>undefined\<close> (an index outside the string) is tested as the word ``undefined''.\<close>

definition lowerAlnum_regex :: regex where
  "lowerAlnum_regex = Cls False (\<lambda>c. isLowerAZ c \<or> isDigit c)"

definition testLowerAlnum :: "string option \<Rightarrow> bool" where
  "testLowerAlnum v =
     test False lowerAlnum_regex (case v of None \<Rightarrow> ''undefined'' | Some s \<Rightarrow> s)"

text \<open>The loop of \<^verbatim>\<open>checkProfanityPatterns\<close>: every \<^verbatim>\<open>return true\<close> is \<open>True\<close>, falling
  out of the body of the loop is the recursive call. \<^verbatim>\<open>Math.max(0, index - 2)\<close> is the
  subtraction of natural numbers, which stops at 0.\<close>

fun patternLoop :: "string \<Rightarrow> string list \<Rightarrow> bool" where
  "patternLoop normalizedText [] = False"
| "patternLoop normalizedText (pat # pats) =
     (if length pat < 2 then patternLoop normalizedText pats
      else case indexOf normalizedText pat of
        None \<Rightarrow> patternLoop normalizedText pats
      | Some index \<Rightarrow>
         (let charBefore = (if 0 < index then Some [normalizedText ! (index - 1)] else Some []);
              charAfter = (if index + length pat < length normalizedText
                       then Some [normalizedText ! (index + length pat)] else Some [])
          in if index = 0 \<or> index + length pat = length normalizedText \<or>
                \<not> testLowerAlnum charBefore \<or> \<not> testLowerAlnum charAfter
             then True
             else if length pat \<le> 3
             then (let ctx = substring normalizedText (index - 2)
                               (min (length normalizedText) (index + length pat + 2))
                   in if ctx = pat \<or>
                         (startsWith ctx pat \<and> \<not> testLowerAlnum (charAt ctx (int (length pat)))) \<or>
                         (endsWith ctx pat \<and>
                          \<not> testLowerAlnum
                               (charAt ctx (int (length ctx) - int (length pat) - 1)))
                      then True
                      else patternLoop normalizedText pats)
             else True))"

definition checkProfanityPatterns :: "string \<Rightarrow> bool" where
  "checkProfanityPatterns normalizedText =
     (if normalizedText = [] \<or> length normalizedText < 2 then False
      else patternLoop normalizedText profanityPatterns)"

text \<open>\<^verbatim>\<open>new RegExp(`\\b${escapedWord}\\b`, 'i')\<close>: the word was escaped, so each of its
  characters stands for itself.\<close>

definition wordPattern :: "string \<Rightarrow> regex" where
  "wordPattern w = Seq WordB (Seq (rLit w) WordB)"

definition commonProfanity :: "string list" where
  "commonProfanity = [''fuck'', ''shit'', ''damn'', ''ass'', ''bitch'', ''sex'', ''porn'',
                      ''kill'', ''hate'', ''abuse'']"

definition hasDirectProfanity :: "string \<Rightarrow> bool" where
  "hasDirectProfanity text =
     list_ex (\<lambda>w. test True (wordPattern w) (toLowerCase text)) commonProfanity"

definition hasObfuscatedProfanity :: "string \<Rightarrow> bool" where
  "hasObfuscatedProfanity text = checkProfanityPatterns (normalizeTextForDetection text)"

record toxicityResult = scored +
  isProfane :: bool

fun asString :: "jsval \<Rightarrow> string" where
  "asString (JString s) = s"
| "asString v = []"

text \<open>The dictionary is the filter of the library \<^verbatim>\<open>bad-words\<close> when it can be loaded; it
  is a parameter here, and \<open>None\<close> is a call that throws, which the \<^verbatim>\<open>try\<close> of the
  source turns into ``not profane''.\<close>

definition detectToxicity :: "(string \<Rightarrow> bool option) \<Rightarrow> jsval \<Rightarrow> toxicityResult" where
  "detectToxicity profanityFilter text =
     (if \<not> truthy text \<or> \<not> isString text then \<lparr>score = 0, isProfane = False\<rparr>
      else let dictionary = (case profanityFilter (asString text) of
                               None \<Rightarrow> False | Some b \<Rightarrow> b)
           in if dictionary \<or> hasObfuscatedProfanity (asString text) \<or>
                 hasDirectProfanity (asString text)
              then \<lparr>score = 1, isProfane = True\<rparr>
              else \<lparr>score = 0, isProfane = False\<rparr>)"

text \<open>The filter the source builds when the library is missing.\<close>

definition basicProfanity :: "string list" where
  "basicProfanity = [''fuck'', ''shit'', ''damn'', ''ass'', ''bitch'', ''sex'', ''porn'']"

definition fallback_profanityFilter :: "string \<Rightarrow> bool option" where
  "fallback_profanityFilter text =
     Some (if text = [] then False
           else list_ex (\<lambda>w. test True (wordPattern w) (toLowerCase text)) basicProfanity)"

subsection \<open>Trust\<close>

text \<open>\<^verbatim>\<open>await User.findById(userId)\<close> fails (the promise rejects), finds nothing
  (\<^verbatim>\<open>null\<close>) or finds a user, whose \<^verbatim>\<open>createdAt\<close>, when present, is a time in
  milliseconds.\<close>

datatype lookup = LookupFails | NoUser | User "int option"

definition msPerDay :: rat where
  "msPerDay = fmul (fmul (fmul 1000 60) 60) 24"

text \<open>\<^verbatim>\<open>(Date.now() - new Date(user.createdAt).getTime()) / (1000 * 60 * 60 * 24)\<close>: the
  difference of the two times and the quotient are each rounded.\<close>

definition accountAgeDays :: "int \<Rightarrow> int \<Rightarrow> rat" where
  "accountAgeDays now created = fdiv (binary64 (of_int now - of_int created)) msPerDay"

definition getUserTrustScore :: "(jsval \<Rightarrow> lookup) \<Rightarrow> int \<Rightarrow> jsval \<Rightarrow> rat" where
  "getUserTrustScore findById now userId =
     (case findById userId of
        LookupFails \<Rightarrow> binary64 (5 / 10)
      | NoUser \<Rightarrow> min (binary64 (7 / 10)) 1
      | User None \<Rightarrow> min (binary64 (7 / 10)) 1
      | User (Some created) \<Rightarrow>
          (let t0 = binary64 (7 / 10);
               t1 = (if 30 < accountAgeDays now created then fadd t0 (binary64 (1 / 10)) else t0);
               t2 = (if 90 < accountAgeDays now created then fadd t1 (binary64 (1 / 10)) else t1)
           in min t2 1))"

section \<open>The decision engine\<close>

datatype status = ALLOW | SOFT_BLOCK | QUARANTINE | REJECT

record scores =
  phi_score :: rat
  spam_score :: rat
  sales_pitch_score :: rat
  toxicity_score :: rat
  link_risk_score :: rat
  user_trust_score :: rat

record span =
  span_text :: string
  span_type :: string
  subtype :: string
  span_start :: int
  span_end :: int

text \<open>The result of \<^verbatim>\<open>scan\<close>. The two \<^verbatim>\<open>return\<close> statements build objects with different
  keys: a key that an object does not have is \<open>None\<close>. The key \<^verbatim>\<open>context\<close> is the field
  \<open>result_context\<close>. The time stamp is kept as the instant it was taken at, not as its
  ISO-8601 text.\<close>

record moderationResult =
  status :: status
  scores :: scores
  flags :: "string list"
  detectedSpans :: "span list"
  reason :: "string option"
  timestamp :: "int option"
  result_context :: "jsval option"

text \<open>What \<^verbatim>\<open>scan\<close> takes from outside the module: the two optional libraries, the user
  store, and the clock, read once by \<^verbatim>\<open>Date.now()\<close> in \<^verbatim>\<open>getUserTrustScore\<close> and once
  by \<^verbatim>\<open>new Date()\<close> when the result is built.\<close>

record env =
  profanityFilter :: "string \<Rightarrow> bool option"
  isValidPhoneNumber :: "string \<Rightarrow> string \<Rightarrow> bool option"
  findById :: "jsval \<Rightarrow> lookup"
  dateNow :: int
  newDate :: int

definition spansOf :: "string \<Rightarrow> detection list \<Rightarrow> span list" where
  "spansOf text dets =
     concat (map (\<lambda>det. map (\<lambda>m.
        \<lparr>span_text = m, span_type = ''phi'', subtype = d_type det,
         span_start = indexOfInt text m,
         span_end = indexOfInt text m + int (length m)\<rparr>) (d_matches det)) dets)"

definition scan :: "env \<Rightarrow> jsval \<Rightarrow> jsval \<Rightarrow> jsval \<Rightarrow> moderationResult" where
  "scan e text userId ctx =
     (if \<not> truthy text \<or> \<not> isString text
      then \<lparr>status = REJECT,
            scores = \<lparr>phi_score = 0, spam_score = 0, sales_pitch_score = 0,
                      toxicity_score = 0, link_risk_score = 0, user_trust_score = 0\<rparr>,
            flags = [], detectedSpans = [], reason = Some ''Invalid input'',
            timestamp = None, result_context = None\<rparr>
      else
        let phiRes = detectPHI (isValidPhoneNumber e) (asString text);
            salesRes = detectSalesPitch (asString text);
            spamRes = detectSpam (asString text);
            linkRes = detectLinks (asString text);
            toxicityRes = detectToxicity (profanityFilter e) text;
            userTrustScore = (if truthy userId
                              then getUserTrustScore (findById e) (dateNow e) userId
                              else binary64 (5 / 10));
            sc = \<lparr>phi_score = score phiRes, spam_score = score spamRes,
                  sales_pitch_score = score salesRes, toxicity_score = score toxicityRes,
                  link_risk_score = score linkRes, user_trust_score = userTrustScore\<rparr>;
            fl = (if binary64 (3 / 10) < phi_score sc then [''phi_detected''] else []) @
                 (if binary64 (5 / 10) < spam_score sc then [''spam_detected''] else []) @
                 (if binary64 (6 / 10) < sales_pitch_score sc then [''sales_pitch''] else []) @
                 (if 0 < toxicity_score sc then [''toxicity''] else []) @
                 (if binary64 (6 / 10) < link_risk_score sc then [''suspicious_links''] else []);
            st = (if 0 < toxicity_score sc then REJECT
                  else if binary64 (5 / 10) < phi_score sc then QUARANTINE
                  else if binary64 (7 / 10) < sales_pitch_score sc \<and>
                          user_trust_score sc < binary64 (5 / 10) then REJECT
                  else if binary64 (7 / 10) < spam_score sc then QUARANTINE
                  else if (binary64 (2 / 10) < phi_score sc \<and>
                           binary64 (4 / 10) < link_risk_score sc) \<or>
                          (binary64 (4 / 10) < spam_score sc \<and>
                           binary64 (5 / 10) < sales_pitch_score sc) then QUARANTINE
                  else if binary64 (2 / 10) < phi_score sc \<or>
                          binary64 (3 / 10) < spam_score sc \<or>
                          binary64 (5 / 10) < link_risk_score sc then SOFT_BLOCK
                  else ALLOW)
        in \<lparr>status = st, scores = sc, flags = fl,
            detectedSpans = spansOf (asString text) (detections phiRes),
            reason = None, timestamp = Some (newDate e),
            result_context = Some (if ctx = JUndefined then JObject [] else ctx)\<rparr>)"

section \<open>The sanitizer\<close>

text \<open>\<^verbatim>\<open>/<\s*(script|style)[^>]*>[\s\S]*?<\s*\/\s*\1>/gi\<close> and \<^verbatim>\<open>/<[^>]*>?/g\<close>\<close>

definition script_block_regex :: regex where
  "script_block_regex = rSeqs [rChar CHR ''<'', rStar rSpace,
       Grp 1 (rAlts [rLit ''script'', rLit ''style'']),
       rStar (Cls True (\<lambda>c. c = CHR ''>'')), rChar CHR ''>'',
       Rep 0 None False (Cls False (\<lambda>c. isSpaceJS c \<or> \<not> isSpaceJS c)),
       rChar CHR ''<'', rStar rSpace, rChar CHR ''/'', rStar rSpace, Bref 1, rChar CHR ''>'']"

definition tag_regex :: regex where
  "tag_regex = rSeqs [rChar CHR ''<'', rStar (Cls True (\<lambda>c. c = CHR ''>'')),
                      rOpt (rChar CHR ''>'')]"

definition sanitizeInput :: "string \<Rightarrow> string" where
  "sanitizeInput text =
     trim (replace_global False tag_regex [] (replace_global True script_block_regex [] text))"

section \<open>The specification's vocabulary\<close>

text \<open>A text is invalid when it is missing, not a string, or the empty string.\<close>

definition invalid_text :: "jsval \<Rightarrow> bool" where
  "invalid_text v = (case v of JString s \<Rightarrow> s = [] | other \<Rightarrow> True)"

definition in_unit :: "rat \<Rightarrow> bool" where
  "in_unit x = (0 \<le> x \<and> x \<le> 1)"

definition scores_in_range :: "scores \<Rightarrow> bool" where
  "scores_in_range s =
     (in_unit (phi_score s) \<and> in_unit (spam_score s) \<and> in_unit (sales_pitch_score s) \<and>
      in_unit (toxicity_score s) \<and> in_unit (link_risk_score s) \<and> in_unit (user_trust_score s))"

text \<open>The decision cascade as the specification words it: an ordered list of rules, each a
  condition on the score vector and the status it gives; the first rule whose condition
  holds decides, and \<open>ALLOW\<close> is what is left when none does.\<close>

definition cascade_rules :: "((scores \<Rightarrow> bool) \<times> status) list" where
  "cascade_rules =
    [(\<lambda>s. 0 < toxicity_score s, REJECT),
     (\<lambda>s. binary64 (5 / 10) < phi_score s, QUARANTINE),
     (\<lambda>s. binary64 (7 / 10) < sales_pitch_score s \<and> user_trust_score s < binary64 (5 / 10),
      REJECT),
     (\<lambda>s. binary64 (7 / 10) < spam_score s, QUARANTINE),
     (\<lambda>s. (binary64 (2 / 10) < phi_score s \<and> binary64 (4 / 10) < link_risk_score s) \<or>
           (binary64 (4 / 10) < spam_score s \<and> binary64 (5 / 10) < sales_pitch_score s),
      QUARANTINE),
     (\<lambda>s. binary64 (2 / 10) < phi_score s \<or> binary64 (3 / 10) < spam_score s \<or>
           binary64 (5 / 10) < link_risk_score s,
      SOFT_BLOCK)]"

primrec first_match :: "((scores \<Rightarrow> bool) \<times> status) list \<Rightarrow> scores \<Rightarrow> status" where
  "first_match [] s = ALLOW"
| "first_match (r # rs) s = (if fst r s then snd r else first_match rs s)"

text \<open>An environment for concrete runs: the two fallbacks of the source stand in for the
  optional libraries, over a given user store and clock.\<close>

definition fallbackEnv :: "(jsval \<Rightarrow> lookup) \<Rightarrow> int \<Rightarrow> env" where
  "fallbackEnv store now =
     \<lparr>profanityFilter = fallback_profanityFilter,
      isValidPhoneNumber = fallback_isValidPhoneNumber,
      findById = store, dateNow = now, newDate = now\<rparr>"

section \<open>Auxiliary notions of the proofs\<close>

text \<open>The length of the input a matcher state still has to read, and matchers that never
  give input back.\<close>

definition restLen :: "mstate \<Rightarrow> nat" where
  "restLen st = length (fst (snd st))"

definition consuming :: "(mstate \<Rightarrow> mstate list) \<Rightarrow> bool" where
  "consuming f = (\<forall>st st'. st' \<in> set (f st) \<longrightarrow> restLen st' \<le> restLen st)"

text \<open>The character before the position reached after reading \<open>pre\<close>.\<close>

definition lastOr :: "char option \<Rightarrow> string \<Rightarrow> char option" where
  "lastOr prev pre = (if pre = [] then prev else Some (last pre))"

text \<open>Patterns whose first atom is the literal \<open><\<close>.\<close>

definition starts_lt :: "regex \<Rightarrow> bool" where
  "starts_lt r = (\<exists>r'. r = Seq (rChar CHR ''<'') r')"

text \<open>The word \<open>w\<close> stands in the text, case-insensitively, as a word of its own: the
  lower-cased text is \<open>pre\<close>, then \<open>w\<close>, then \<open>post\<close>, and neither the character before
  \<open>w\<close> nor the one after it is a word character.\<close>

definition standalone_word :: "string \<Rightarrow> string \<Rightarrow> string \<Rightarrow> string \<Rightarrow> bool" where
  "standalone_word w text pre post =
     (toLowerCase text = pre @ w @ post \<and>
      (pre = [] \<or> \<not> isWordChar (last pre)) \<and>
      (post = [] \<or> \<not> isWordChar (hd post)))"

definition phoneText :: string where
  "phoneText = ''Call me at 555-123-4567''"

section \<open>The matcher only consumes\<close>

lemma consumingD: "consuming f \<Longrightarrow> st' \<in> set (f st) \<Longrightarrow> restLen st' \<le> restLen st"
  unfolding consuming_def by blast

lemma rep_consuming_aux:
  "consuming f \<Longrightarrow> st' \<in> set (rep f mn mx g st) \<Longrightarrow> restLen st' \<le> restLen st"
proof (induction f mn mx g st arbitrary: st' rule: rep.induct)
  case (1 f mn mx g prev caps)
  show ?case
  proof (cases "mx = Some 0")
    case True
    with "1.prems" show ?thesis by simp
  next
    case False
    from "1.prems"(2) False
    consider "st' = (prev, [], caps)"
      | p r c where "(p, r, c) \<in> set (f (prev, [], caps))" "mn \<noteq> 0"
          "st' \<in> set (rep f (mn - 1) (decMax mx) g (p, r, c))"
      by (auto simp: Let_def split: if_splits)
    then show ?thesis
    proof cases
      case 1
      then show ?thesis by simp
    next
      case 2
      from "1.IH" [OF False 2(1) refl refl _ "1.prems"(1) 2(3)] 2(2)
      have "restLen st' \<le> restLen (p, r, c)" by simp
      moreover have "restLen (p, r, c) \<le> restLen (prev, [], caps)"
        using consumingD [OF "1.prems"(1) 2(1)] .
      ultimately show ?thesis by simp
    qed
  qed
next
  case (2 f mn mx g prev x xs caps)
  show ?case
  proof (cases "mx = Some 0")
    case True
    with "2.prems" show ?thesis by simp
  next
    case False
    from "2.prems"(2) False
    consider "st' = (prev, x # xs, caps)"
      | p r c where "(p, r, c) \<in> set (f (prev, x # xs, caps))"
          "\<not> (mn = 0 \<and> \<not> length r < length (x # xs))"
          "st' \<in> set (rep f (mn - 1) (decMax mx) g (p, r, c))"
      by (auto simp: Let_def split: if_splits)
    then show ?thesis
    proof cases
      case 1
      then show ?thesis by simp
    next
      case 2
      from "2.IH" [OF False 2(1) refl refl 2(2) "2.prems"(1) 2(3)]
      have "restLen st' \<le> restLen (p, r, c)" .
      moreover have "restLen (p, r, c) \<le> restLen (prev, x # xs, caps)"
        using consumingD [OF "2.prems"(1) 2(1)] .
      ultimately show ?thesis by simp
    qed
  qed
qed

lemma rep_consuming: "consuming f \<Longrightarrow> consuming (rep f mn mx g)"
  unfolding consuming_def [of "rep f mn mx g"] by (blast intro: rep_consuming_aux)

lemma mt_consuming: "consuming (mt ic r)"
proof (induction r)
  case (Cls neg P)
  show ?case
    by (auto simp: consuming_def restLen_def split: list.splits if_splits)
next
  case Eps
  show ?case by (simp add: consuming_def)
next
  case (Seq a b)
  show ?case
    unfolding consuming_def
  proof (intro allI impI)
    fix st st' assume "st' \<in> set (mt ic (Seq a b) st)"
    then obtain s where "s \<in> set (mt ic a st)" "st' \<in> set (mt ic b s)" by auto
    then show "restLen st' \<le> restLen st"
      using consumingD [OF Seq.IH(1)] consumingD [OF Seq.IH(2)] by (meson order_trans)
  qed
next
  case (Alt a b)
  then show ?case by (auto simp: consuming_def)
next
  case (Rep mn mx g r)
  have "mt ic (Rep mn mx g r) = rep (\<lambda>s. mt ic r s) mn mx g" by (rule ext) simp
  with Rep show ?case by (simp add: rep_consuming)
next
  case (Grp n r)
  then show ?case by (fastforce simp: consuming_def restLen_def)
next
  case (Bref n)
  show ?case
    by (auto simp: consuming_def restLen_def split: option.splits if_splits)
next
  case WordB
  show ?case by (auto simp: consuming_def restLen_def split: if_splits)
qed

lemma mt_length:
  "(p', r', c') \<in> set (mt ic r (p, rest, c)) \<Longrightarrow> length r' \<le> length rest"
  using consumingD [OF mt_consuming, of "(p', r', c')" ic r "(p, rest, c)"]
  by (simp add: restLen_def)

section \<open>Patterns that need an opening angle bracket\<close>

lemma toLowerChar_lt: "toLowerChar c = CHR ''<'' \<longleftrightarrow> c = CHR ''<''"
proof
  assume a: "toLowerChar c = CHR ''<''"
  show "c = CHR ''<''"
  proof (rule ccontr)
    assume n: "c \<noteq> CHR ''<''"
    with a have range: "(65 \<le> code_unit c \<and> code_unit c \<le> 90) \<or>
        (192 \<le> code_unit c \<and> code_unit c \<le> 222 \<and> code_unit c \<noteq> 215)"
      and eq: "char_of (code_unit c + 32) = CHR ''<''"
      by (auto simp: toLowerChar_def Let_def split: if_splits)
    from eq have "of_char (char_of (code_unit c + 32)) = (of_char CHR ''<'' :: int)" by simp
    then have "(code_unit c + 32) mod 256 = 60" by simp
    with range show False by presburger
  qed
next
  assume "c = CHR ''<''"
  then show "toLowerChar c = CHR ''<''" by (simp add: toLowerChar_def code_unit_def)
qed

lemma toUpperChar_lt: "toUpperChar c = CHR ''<'' \<longleftrightarrow> c = CHR ''<''"
proof
  assume a: "toUpperChar c = CHR ''<''"
  show "c = CHR ''<''"
  proof (rule ccontr)
    assume n: "c \<noteq> CHR ''<''"
    with a have range: "(97 \<le> code_unit c \<and> code_unit c \<le> 122) \<or>
        (224 \<le> code_unit c \<and> code_unit c \<le> 254 \<and> code_unit c \<noteq> 247)"
      and eq: "char_of (code_unit c - 32) = CHR ''<''"
      by (auto simp: toUpperChar_def Let_def split: if_splits)
    from eq have "of_char (char_of (code_unit c - 32)) = (of_char CHR ''<'' :: int)" by simp
    then have "(code_unit c - 32) mod 256 = 60" by simp
    with range show False by presburger
  qed
next
  assume "c = CHR ''<''"
  then show "toUpperChar c = CHR ''<''" by (simp add: toUpperChar_def code_unit_def)
qed

lemma classMatch_lt: "classMatch ic (\<lambda>x. x = CHR ''<'') c \<longleftrightarrow> c = CHR ''<''"
  by (auto simp: classMatch_def toLowerChar_lt toUpperChar_lt)

text \<open>A pattern that begins with a literal \<open><\<close> matches only where the text has one.\<close>

lemma mt_lt_first:
  "mt ic (Seq (rChar CHR ''<'') r) (prev, rest, caps) =
     (case rest of [] \<Rightarrow> []
      | c # cs \<Rightarrow> if c = CHR ''<'' then mt ic r (Some c, cs, caps) else [])"
  by (cases rest) (simp_all add: rChar_def classMatch_lt)

lemma starts_lt_no_match_Nil: "starts_lt r \<Longrightarrow> mt ic r (prev, [], caps) = []"
  by (auto simp: starts_lt_def mt_lt_first simp del: mt.simps)

lemma starts_lt_no_match_Cons:
  "starts_lt r \<Longrightarrow> c \<noteq> CHR ''<'' \<Longrightarrow> mt ic r (prev, c # cs, caps) = []"
  by (auto simp: starts_lt_def mt_lt_first simp del: mt.simps)

lemma starts_lt_shorter:
  "starts_lt r \<Longrightarrow> (p', r', c') \<in> set (mt ic r (prev, c # cs, caps)) \<Longrightarrow>
   length r' \<le> length cs"
  by (auto simp: starts_lt_def mt_lt_first simp del: mt.simps split: if_splits dest: mt_length)

lemma replace_without_lt:
  "starts_lt r \<Longrightarrow> CHR ''<'' \<notin> set s \<Longrightarrow> replace_from ic r tmpl prev 0 s = s"
proof (induction s arbitrary: prev)
  case Nil
  then show ?case by (simp add: starts_lt_no_match_Nil)
next
  case (Cons c cs)
  then have "c \<noteq> CHR ''<''" by auto
  then have "mt ic r (prev, c # cs, []) = []"
    using Cons.prems(1) by (rule starts_lt_no_match_Cons [rotated])
  with Cons show ?case by simp
qed

lemma rep_min0_nonempty: "rep f 0 mx g st \<noteq> []"
proof -
  obtain prev rest caps where st: "st = (prev, rest, caps)" by (cases st)
  show ?thesis unfolding st by (cases rest) (simp_all add: Let_def)
qed

lemma tag_regex_starts: "starts_lt tag_regex"
  by (simp add: tag_regex_def starts_lt_def)

lemma script_block_regex_starts: "starts_lt script_block_regex"
  by (simp add: script_block_regex_def starts_lt_def)

lemma mt_Seq_nonempty:
  "st' \<in> set (mt ic a st) \<Longrightarrow> mt ic b st' \<noteq> [] \<Longrightarrow> mt ic (Seq a b) st \<noteq> []"
  by auto

lemma nonempty_member: "xs \<noteq> [] \<Longrightarrow> \<exists>x. x \<in> set xs"
  by (cases xs) auto

lemma tag_regex_matches: "mt False tag_regex (prev, CHR ''<'' # cs, caps) \<noteq> []"
proof -
  let ?body = "rStar (Cls True (\<lambda>c. c = CHR ''>''))"
  let ?close = "rOpt (rChar CHR ''>'')"
  have tail: "mt False (Seq ?close Eps) st \<noteq> []" for st
  proof -
    have "mt False ?close st \<noteq> []"
      by (simp add: rOpt_def rep_min0_nonempty)
    then obtain x where "x \<in> set (mt False ?close st)"
      using nonempty_member by blast
    moreover have "mt False Eps x \<noteq> []" by simp
    ultimately show ?thesis by (rule mt_Seq_nonempty)
  qed
  have "mt False ?body (Some CHR ''<'', cs, caps) \<noteq> []"
    by (simp add: rStar_def rep_min0_nonempty)
  then obtain y where "y \<in> set (mt False ?body (Some CHR ''<'', cs, caps))"
    using nonempty_member by blast
  then have "mt False (Seq ?body (Seq ?close Eps)) (Some CHR ''<'', cs, caps) \<noteq> []"
    using tail by (rule mt_Seq_nonempty)
  moreover have "mt False tag_regex (prev, CHR ''<'' # cs, caps)
      = mt False (Seq ?body (Seq ?close Eps)) (Some CHR ''<'', cs, caps)"
    unfolding tag_regex_def rSeqs.simps mt_lt_first by simp
  ultimately show ?thesis by simp
qed

lemma strip_tags_no_lt:
  "CHR ''<'' \<notin> set (replace_from False tag_regex [] prev skip s)"
proof (induction s arbitrary: prev skip)
  case Nil
  have "mt False tag_regex (prev, [], []) = []"
    using tag_regex_starts by (rule starts_lt_no_match_Nil)
  then have "replace_from False tag_regex [] prev skip [] = []" by simp
  then show ?case by simp
next
  case (Cons c cs)
  show ?case
  proof (cases "0 < skip")
    case True
    then have "replace_from False tag_regex [] prev skip (c # cs)
        = replace_from False tag_regex [] (Some c) (skip - 1) cs" by simp
    then show ?thesis using Cons.IH by simp
  next
    case False
    show ?thesis
    proof (cases "mt False tag_regex (prev, c # cs, [])")
      case Nil
      then have "c \<noteq> CHR ''<''" using tag_regex_matches [of prev cs "[]"] by auto
      moreover have "replace_from False tag_regex [] prev skip (c # cs)
          = c # replace_from False tag_regex [] (Some c) 0 cs"
        using Nil False by simp
      ultimately show ?thesis using Cons.IH by simp
    next
      case (Cons st sts)
      obtain p' r' c' where st: "st = (p', r', c')" by (cases st)
      have "(p', r', c') \<in> set (mt False tag_regex (prev, c # cs, []))"
        by (simp add: Cons st)
      from starts_lt_shorter [OF tag_regex_starts this]
      have "length (c # cs) - length r' \<noteq> 0" by simp
      then have "replace_from False tag_regex [] prev skip (c # cs)
          = replace_from False tag_regex [] (Some c) (length (c # cs) - length r' - 1) cs"
        using Cons st False by (simp add: Let_def expand_def)
      then show ?thesis using Cons.IH by simp
    qed
  qed
qed

lemma trim_subset: "set (trim s) \<subseteq> set s"
proof -
  have "set (trim s) = set (dropWhile isSpaceJS (rev (dropWhile isSpaceJS s)))"
    by (simp add: trim_def)
  also have "\<dots> \<subseteq> set (rev (dropWhile isSpaceJS s))" by (rule set_dropWhileD [THEN subsetI])
  also have "\<dots> \<subseteq> set s" by (auto dest: set_dropWhileD)
  finally show ?thesis .
qed

lemma dropWhile_rev_trimmed:
  "dropWhile P (rev (dropWhile P (rev (dropWhile P s)))) = rev (dropWhile P (rev (dropWhile P s)))"
proof (cases "dropWhile P s")
  case Nil
  show ?thesis unfolding Nil by simp
next
  case (Cons x xs)
  then have nx: "\<not> P x" using hd_dropWhile [of P s] by (metis list.sel(1) list.distinct(1))
  show ?thesis
  proof (cases "dropWhile P (rev xs) = []")
    case True
    then have "rev (dropWhile P (rev (x # xs))) = [x]"
      using nx by (simp add: dropWhile_append)
    then show ?thesis unfolding Cons using nx by simp
  next
    case False
    then have "rev (dropWhile P (rev (x # xs))) = x # rev (dropWhile P (rev xs))"
      by (simp add: dropWhile_append)
    then show ?thesis unfolding Cons using nx by simp
  qed
qed

lemma trim_idem: "trim (trim s) = trim s"
  by (simp add: trim_def dropWhile_rev_trimmed)

lemma replace_global_without_lt:
  "starts_lt r \<Longrightarrow> CHR ''<'' \<notin> set s \<Longrightarrow> replace_global ic r tmpl s = s"
  unfolding replace_global_def by (rule replace_without_lt)

lemma strip_tags_global_no_lt: "CHR ''<'' \<notin> set (replace_global False tag_regex [] s)"
  unfolding replace_global_def by (rule strip_tags_no_lt)


section \<open>Numbers stay in range\<close>

lemma round_half_even_nonneg: "0 \<le> x \<Longrightarrow> 0 \<le> round_half_even x"
  by (simp add: round_half_even_def Let_def)

lemma binary64_nonneg: "0 \<le> x \<Longrightarrow> 0 \<le> binary64 x"
  by (simp add: binary64_def Let_def round_half_even_nonneg zero_le_mult_iff)

lemma fadd_nonneg: "0 \<le> a \<Longrightarrow> 0 \<le> b \<Longrightarrow> 0 \<le> fadd a b"
  by (simp add: fadd_def binary64_nonneg)

lemma fmul_nonneg: "0 \<le> a \<Longrightarrow> 0 \<le> b \<Longrightarrow> 0 \<le> fmul a b"
  by (simp add: fmul_def binary64_nonneg)

lemma half_exact: "binary64 (1 / 2) = 1 / 2"
  by code_simp

lemma phiLoop_nonneg:
  "\<forall>p \<in> set ps. 0 \<le> p_weight p \<Longrightarrow> 0 \<le> snd acc \<Longrightarrow> 0 \<le> snd (phiLoop text ps acc)"
proof (induction ps arbitrary: acc)
  case Nil
  then show ?case by simp
next
  case (Cons p ps)
  obtain dets sc where acc: "acc = (dets, sc)" by (cases acc)
  from Cons.prems have w: "0 \<le> p_weight p" and sc: "0 \<le> sc" by (simp_all add: acc)
  have step: "0 \<le> fadd sc (fmul (p_weight p) (of_nat n))" for n
    by (intro fadd_nonneg fmul_nonneg sc w) simp
  show ?case
    using Cons.prems step by (auto simp: acc Let_def intro!: Cons.IH)
qed

lemma phoneLoop_nonneg: "0 \<le> snd acc \<Longrightarrow> 0 \<le> snd (phoneLoop valid phones acc)"
proof (induction phones arbitrary: acc)
  case Nil
  then show ?case by simp
next
  case (Cons phone phones)
  obtain dets sc where acc: "acc = (dets, sc)" by (cases acc)
  from Cons.prems have "0 \<le> fadd sc (binary64 (9 / 10))"
    by (simp add: acc fadd_nonneg binary64_nonneg)
  with Cons.prems show ?case
    by (auto simp: acc intro!: Cons.IH)
qed

lemma PHI_PATTERNS_weights: "\<forall>p \<in> set PHI_PATTERNS. 0 \<le> p_weight p"
  by (simp add: PHI_PATTERNS_def binary64_nonneg)

lemma detectPHI_range: "0 \<le> score (detectPHI valid text) \<and> score (detectPHI valid text) \<le> 1"
  by (simp add: detectPHI_def phiTotal_def phoneLoop_nonneg phiLoop_nonneg PHI_PATTERNS_weights)

lemma salesLoop_nonneg: "0 \<le> snd acc \<Longrightarrow> 0 \<le> snd (salesLoop lowerText ks acc)"
proof (induction ks arbitrary: acc)
  case Nil
  then show ?case by simp
next
  case (Cons k ks)
  obtain ms sc where acc: "acc = (ms, sc)" by (cases acc)
  from Cons.prems have "0 \<le> fadd sc (binary64 (2 / 10))"
    by (simp add: acc fadd_nonneg binary64_nonneg)
  with Cons.prems show ?case
    by (auto simp: acc intro!: Cons.IH)
qed

lemma detectSalesPitch_range:
  "0 \<le> score (detectSalesPitch text) \<and> score (detectSalesPitch text) \<le> 1"
  by (simp add: detectSalesPitch_def Let_def salesLoop_nonneg)

lemma spamLoop_nonneg:
  "\<forall>p \<in> set ps. 0 \<le> p_weight p \<Longrightarrow> 0 \<le> snd acc \<Longrightarrow> 0 \<le> snd (spamLoop text ps acc)"
proof (induction ps arbitrary: acc)
  case Nil
  then show ?case by simp
next
  case (Cons p ps)
  obtain dets sc where acc: "acc = (dets, sc)" by (cases acc)
  from Cons.prems have w: "0 \<le> p_weight p" and sc: "0 \<le> sc" by (simp_all add: acc)
  have step: "0 \<le> fadd sc (fmul (p_weight p) (of_nat n))" for n
    by (intro fadd_nonneg fmul_nonneg sc w) simp
  show ?case
    using Cons.prems step by (auto simp: acc Let_def intro!: Cons.IH)
qed

lemma SPAM_PATTERNS_weights: "\<forall>p \<in> set SPAM_PATTERNS. 0 \<le> p_weight p"
  by (simp add: SPAM_PATTERNS_def binary64_nonneg)

lemma detectSpam_range: "0 \<le> score (detectSpam text) \<and> score (detectSpam text) \<le> 1"
  by (simp add: detectSpam_def Let_def spamLoop_nonneg SPAM_PATTERNS_weights)

lemma linkRisk_nonneg: "0 \<le> linkRisk text"
  by (simp add: linkRisk_def Let_def fadd_nonneg fmul_nonneg binary64_nonneg)

lemma detectLinks_range: "0 \<le> score (detectLinks text) \<and> score (detectLinks text) \<le> 1"
  by (simp add: detectLinks_def linkRisk_nonneg)

lemma detectToxicity_range:
  "0 \<le> score (detectToxicity pf text) \<and> score (detectToxicity pf text) \<le> 1"
  by (simp add: detectToxicity_def Let_def)

lemma getUserTrustScore_range:
  "0 \<le> getUserTrustScore store now u \<and> getUserTrustScore store now u \<le> 1"
  by (simp add: getUserTrustScore_def Let_def half_exact fadd_nonneg binary64_nonneg
      split: lookup.split option.split)

section \<open>Rounding to binary64\<close>

text \<open>\<open>ilog2\<close> finds the binary exponent of a positive number, rounding to an integer is
  monotone and leaves integers alone; so rounding to binary64 never crosses a number that
  is itself a multiple of the unit in the last place. This is what turns the comparison
  of the account age in days, a rounded quotient, into a comparison of milliseconds.\<close>

lemma pow2_nat: "0 \<le> k \<Longrightarrow> (2 :: rat) powi k = 2 ^ nat k"
  by (simp add: power_int_def)

lemma ilog2_lower: "0 < x \<Longrightarrow> 2 powi (ilog2 x) \<le> x"
proof -
  assume pos: "0 < x"
  obtain a b where q: "quotient_of x = (a, b)" by (cases "quotient_of x")
  have b: "0 < b" using q by (rule quotient_of_denom_pos)
  have x: "x = of_int a / of_int b" using q by (rule quotient_of_div)
  have a: "0 < a" using pos b by (simp add: x zero_less_divide_iff)
  have la: "(2 :: rat) powi (bitlen a - 1) \<le> of_int a"
  proof -
    have "1 \<le> bitlen a" using a bitlen_eq_zero_iff [of a] bitlen_nonneg [of a] by linarith
    then have "(2 :: rat) powi (bitlen a - 1) = of_int (2 ^ nat (bitlen a - 1))"
      by (simp add: pow2_nat)
    also have "\<dots> \<le> of_int a" using bitlen_bounds [OF a] by (simp only: of_int_le_iff)
    finally show ?thesis .
  qed
  have ub: "of_int b \<le> (2 :: rat) powi (bitlen b)"
  proof -
    have "of_int b \<le> (of_int (2 ^ nat (bitlen b)) :: rat)"
      using bitlen_bounds [OF b] by (simp only: of_int_le_iff) simp
    also have "\<dots> = 2 powi (bitlen b)" using bitlen_nonneg [of b] by (simp add: pow2_nat)
    finally show ?thesis .
  qed
  have "(2 :: rat) powi (bitlen a - bitlen b - 1) = 2 powi (bitlen a - 1) / 2 powi (bitlen b)"
    using power_int_diff [of "2 :: rat" "bitlen a - 1" "bitlen b"] by (simp add: algebra_simps)
  also have "\<dots> \<le> of_int a / of_int b"
    using la ub b a by (intro frac_le) simp_all
  finally have low: "(2 :: rat) powi (bitlen a - bitlen b - 1) \<le> x" by (simp add: x)
  show ?thesis
    using low by (simp add: ilog2_def q Let_def)
qed

lemma ilog2_upper: "0 < x \<Longrightarrow> x < 2 powi (ilog2 x + 1)"
proof -
  assume pos: "0 < x"
  obtain a b where q: "quotient_of x = (a, b)" by (cases "quotient_of x")
  have b: "0 < b" using q by (rule quotient_of_denom_pos)
  have x: "x = of_int a / of_int b" using q by (rule quotient_of_div)
  have a: "0 < a" using pos b by (simp add: x zero_less_divide_iff)
  have ua: "of_int a < (2 :: rat) powi (bitlen a)"
  proof -
    have "of_int a < (of_int (2 ^ nat (bitlen a)) :: rat)"
      using bitlen_bounds [OF a] by (simp only: of_int_less_iff)
    also have "\<dots> = 2 powi (bitlen a)" using bitlen_nonneg [of a] by (simp add: pow2_nat)
    finally show ?thesis .
  qed
  have lb: "(2 :: rat) powi (bitlen b - 1) \<le> of_int b"
  proof -
    have "1 \<le> bitlen b" using b bitlen_eq_zero_iff [of b] bitlen_nonneg [of b] by linarith
    then have "(2 :: rat) powi (bitlen b - 1) = of_int (2 ^ nat (bitlen b - 1))"
      by (simp add: pow2_nat)
    also have "\<dots> \<le> of_int b" using bitlen_bounds [OF b] by (simp only: of_int_le_iff)
    finally show ?thesis .
  qed
  have "of_int a / of_int b < (2 :: rat) powi (bitlen a) / 2 powi (bitlen b - 1)"
    using ua lb a b by (intro frac_less) simp_all
  also have "\<dots> = 2 powi (bitlen a - bitlen b + 1)"
    using power_int_diff [of "2 :: rat" "bitlen a" "bitlen b - 1"] by (simp add: algebra_simps)
  finally have up: "x < 2 powi (bitlen a - bitlen b + 1)" by (simp add: x)
  show ?thesis
    using up by (auto simp: ilog2_def q Let_def not_le)
qed

lemma round_half_even_int: "round_half_even (of_int n) = n"
  by (simp add: round_half_even_def)

lemma round_half_even_bounds: "\<lfloor>x\<rfloor> \<le> round_half_even x \<and> round_half_even x \<le> \<lfloor>x\<rfloor> + 1"
  by (simp add: round_half_even_def Let_def)

lemma round_half_even_mono: "a \<le> b \<Longrightarrow> round_half_even a \<le> round_half_even b"
proof -
  assume ab: "a \<le> b"
  then have fl: "\<lfloor>a\<rfloor> \<le> \<lfloor>b\<rfloor>" by (rule floor_mono)
  show ?thesis
  proof (cases "\<lfloor>a\<rfloor> = \<lfloor>b\<rfloor>")
    case True
    with ab show ?thesis by (auto simp: round_half_even_def Let_def)
  next
    case False
    with fl have "\<lfloor>a\<rfloor> + 1 \<le> \<lfloor>b\<rfloor>" by simp
    with round_half_even_bounds [of a] round_half_even_bounds [of b] show ?thesis by linarith
  qed
qed

lemma binary64_nonpos: "x \<le> 0 \<Longrightarrow> binary64 x \<le> 0"
proof -
  assume x: "x \<le> 0"
  have "round_half_even (x / 2 powi q) \<le> 0" for q
  proof -
    have "x / 2 powi q \<le> 0" using x by (simp add: divide_le_0_iff)
    from round_half_even_mono [OF this] show ?thesis by (simp add: round_half_even_def)
  qed
  then show ?thesis
    by (simp add: binary64_def Let_def mult_le_0_iff)
qed

lemma binary64_unfold:
  "x \<noteq> 0 \<Longrightarrow> q = max (ilog2 \<bar>x\<bar> - 52) (- 1074) \<Longrightarrow>
   binary64 x = of_int (round_half_even (x / 2 powi q)) * 2 powi q"
  by (simp add: binary64_def Let_def)

lemma ilog2_less: "0 < x \<Longrightarrow> x < 2 powi n \<Longrightarrow> ilog2 x < n"
proof (rule ccontr)
  assume pos: "0 < x" and lt: "x < 2 powi n" and "\<not> ilog2 x < n"
  then have "n \<le> ilog2 x" by simp
  then have "(2 :: rat) powi n \<le> 2 powi (ilog2 x)" by (intro power_int_increasing) simp_all
  with ilog2_lower [OF pos] lt show False by linarith
qed

text \<open>The result is a nearest neighbour: it is off by at most half a unit in the
  last place.\<close>

lemma round_half_even_error: "\<bar>of_int (round_half_even y) - y\<bar> \<le> 1 / 2"
proof -
  have "of_int \<lfloor>y\<rfloor> \<le> y" "y < of_int \<lfloor>y\<rfloor> + 1" by linarith+
  then show ?thesis
    by (auto simp: round_half_even_def Let_def abs_le_iff)
qed

lemma binary64_error:
  assumes "x \<noteq> 0" "q = max (ilog2 \<bar>x\<bar> - 52) (- 1074)"
  shows "\<bar>binary64 x - x\<bar> \<le> 2 powi q / 2"
proof -
  have p: "(0 :: rat) < 2 powi q" by simp
  have "binary64 x - x = (of_int (round_half_even (x / 2 powi q)) - x / 2 powi q) * 2 powi q"
    by (simp add: binary64_unfold [OF assms] algebra_simps)
  then have "\<bar>binary64 x - x\<bar> = \<bar>of_int (round_half_even (x / 2 powi q)) - x / 2 powi q\<bar> * 2 powi q"
    by (simp add: abs_mult)
  also have "\<dots> \<le> 1 / 2 * 2 powi q"
    using round_half_even_error [of "x / 2 powi q"] p by (intro mult_right_mono) simp_all
  finally show ?thesis by simp
qed

text \<open>A multiple of the unit in the last place is a fixed point, and rounding does not
  cross it.\<close>

lemma scaled_int: "q \<le> j \<Longrightarrow> \<exists>k. (of_int m * 2 powi j) / 2 powi q = (of_int k :: rat)"
proof -
  assume "q \<le> j"
  then have "(2 :: rat) powi j / 2 powi q = of_int (2 ^ nat (j - q))"
    using power_int_diff [of "2 :: rat" j q] by (simp add: pow2_nat)
  then have "(of_int m * 2 powi j) / 2 powi q = (of_int (m * 2 ^ nat (j - q)) :: rat)"
    by (simp add: times_divide_eq_right [symmetric] del: times_divide_eq_right)
  then show ?thesis by blast
qed

lemma binary64_below:
  assumes "x \<le> of_int m * 2 powi j" "0 < x" "max (ilog2 x - 52) (- 1074) \<le> j"
  shows "binary64 x \<le> of_int m * 2 powi j"
proof -
  define q where "q = max (ilog2 \<bar>x\<bar> - 52) (- 1074)"
  have qj: "q \<le> j" using assms(2,3) by (simp add: q_def)
  obtain k where k: "(of_int m * 2 powi j) / 2 powi q = (of_int k :: rat)"
    using scaled_int [OF qj] by blast
  have "x / 2 powi q \<le> (of_int m * 2 powi j) / 2 powi q"
    using assms(1) by (simp add: divide_right_mono)
  then have "round_half_even (x / 2 powi q) \<le> k"
    using round_half_even_mono [of "x / 2 powi q" "of_int k"]
    by (simp add: k round_half_even_int)
  then have "(of_int (round_half_even (x / 2 powi q)) :: rat) \<le> of_int k" by simp
  then have "of_int (round_half_even (x / 2 powi q)) * 2 powi q \<le> (of_int k :: rat) * 2 powi q"
    by (simp add: mult_right_mono)
  also have "(of_int k :: rat) * 2 powi q = of_int m * 2 powi j"
    using k by (simp add: field_simps)
  finally show ?thesis
    using assms(2) by (simp add: binary64_unfold [OF _ q_def])
qed

lemma binary64_above:
  assumes "of_int m * 2 powi j \<le> x" "0 < x" "max (ilog2 x - 52) (- 1074) \<le> j"
  shows "of_int m * 2 powi j \<le> binary64 x"
proof -
  define q where "q = max (ilog2 \<bar>x\<bar> - 52) (- 1074)"
  have qj: "q \<le> j" using assms(2,3) by (simp add: q_def)
  obtain k where k: "(of_int m * 2 powi j) / 2 powi q = (of_int k :: rat)"
    using scaled_int [OF qj] by blast
  have "(of_int m * 2 powi j) / 2 powi q \<le> x / 2 powi q"
    using assms(1) by (simp add: divide_right_mono)
  then have "k \<le> round_half_even (x / 2 powi q)"
    using round_half_even_mono [of "of_int k" "x / 2 powi q"]
    by (simp add: k round_half_even_int)
  then have "(of_int k :: rat) \<le> of_int (round_half_even (x / 2 powi q))" by simp
  then have "(of_int k :: rat) * 2 powi q \<le> of_int (round_half_even (x / 2 powi q)) * 2 powi q"
    by (simp add: mult_right_mono)
  moreover have "(of_int k :: rat) * 2 powi q = of_int m * 2 powi j"
    using k by (simp add: field_simps)
  ultimately show ?thesis
    using assms(2) by (simp add: binary64_unfold [OF _ q_def])
qed

lemma msPerDay_value: "msPerDay = 86400000"
  by code_simp

lemma binary64_of_pos_int:
  assumes "0 < d" "d < 2 ^ 53"
  shows "binary64 (of_int d) = of_int d"
proof -
  have pos: "(0 :: rat) < of_int d" using assms(1) by simp
  have "(of_int d :: rat) < of_int (2 ^ 53)" using assms(2) by (simp only: of_int_less_iff)
  then have "(of_int d :: rat) < 2 powi 53" by simp
  from ilog2_less [OF pos this] have q: "max (ilog2 (of_int d) - 52) (- 1074) \<le> 0" by simp
  have "binary64 (of_int d) \<le> of_int d * 2 powi 0"
    by (rule binary64_below [OF _ pos q]) simp
  moreover have "of_int d * 2 powi 0 \<le> binary64 (of_int d)"
    by (rule binary64_above [OF _ pos q]) simp
  ultimately show ?thesis by simp
qed

lemma binary64_le_int:
  assumes "x \<le> of_int n" "0 \<le> n" "n < 2 ^ 53"
  shows "binary64 x \<le> of_int n"
proof (cases "0 < x")
  case False
  then have "binary64 x \<le> 0" by (intro binary64_nonpos) simp
  with assms(2) show ?thesis by (simp add: order_trans [where y = 0])
next
  case True
  have "(of_int n :: rat) < of_int (2 ^ 53)" using assms(3) by (simp only: of_int_less_iff)
  with assms(1) have "x < 2 powi 53" by simp
  from ilog2_less [OF True this] have q: "max (ilog2 x - 52) (- 1074) \<le> 0" by simp
  have "binary64 x \<le> of_int n * 2 powi 0"
    by (rule binary64_below [OF _ True q]) (simp add: assms(1))
  then show ?thesis by simp
qed

lemma binary64_gt_int:
  assumes "of_int n + 1 / 2 ^ 27 \<le> x" "0 \<le> n" "n < 2 ^ 26"
  shows "of_int n < binary64 x"
proof -
  have pos: "0 < x"
  proof -
    have "(0 :: rat) < of_int n + 1 / 2 ^ 27" using assms(2) by (simp add: add_nonneg_pos)
    with assms(1) show ?thesis by linarith
  qed
  have c: "of_int n + 1 / 2 ^ 27 = (of_int (n * 2 ^ 27 + 1) :: rat) * 2 powi (- 27)"
    by (simp add: power_int_minus field_simps)
  show ?thesis
  proof (cases "max (ilog2 x - 52) (- 1074) \<le> - 27")
    case True
    have "of_int (n * 2 ^ 27 + 1) * 2 powi (- 27) \<le> binary64 x"
      by (rule binary64_above [OF _ pos True]) (use assms(1) c in simp)
    then have "of_int n + 1 / 2 ^ 27 \<le> binary64 x" by (simp only: c)
    then show ?thesis by (simp add: less_le_trans [where y = "of_int n + 1 / 2 ^ 27"])
  next
    case False
    then have e: "26 \<le> ilog2 x" by simp
    have "max (ilog2 x - 52) (- 1074) \<le> ilog2 x" using e by simp
    moreover have "of_int 1 * 2 powi (ilog2 x) \<le> x" using ilog2_lower [OF pos] by simp
    ultimately have "of_int 1 * 2 powi (ilog2 x) \<le> binary64 x"
      using pos by (intro binary64_above)
    moreover have "(2 :: rat) powi 26 \<le> 2 powi (ilog2 x)"
      using e by (intro power_int_increasing) simp_all
    moreover have "(of_int n :: rat) < 2 powi 26"
    proof -
      have "(of_int n :: rat) < of_int (2 ^ 26)" using assms(3) by (simp only: of_int_less_iff)
      then show ?thesis by simp
    qed
    ultimately show ?thesis by simp
  qed
qed

lemma accountAgeDays_threshold:
  assumes "now - created < 2 ^ 53" "0 < n" "n < 2 ^ 26"
  shows "of_int n < accountAgeDays now created \<longleftrightarrow> n * 86400000 < now - created"
proof (cases "0 < now - created")
  case False
  then have "binary64 (of_int now - of_int created) \<le> 0"
    by (intro binary64_nonpos) simp
  then have "binary64 (of_int now - of_int created) / 86400000 \<le> 0"
    by (simp add: divide_le_0_iff)
  then have "accountAgeDays now created \<le> 0"
    unfolding accountAgeDays_def fdiv_def msPerDay_value by (rule binary64_nonpos)
  moreover have "(0 :: rat) < of_int n" using assms(2) by simp
  ultimately have l: "\<not> of_int n < accountAgeDays now created" by linarith
  have "0 < n * 86400000" using assms(2) by simp
  with False have r: "\<not> n * 86400000 < now - created" by linarith
  from l r show ?thesis by blast
next
  case True
  have exact: "binary64 (of_int now - of_int created) = of_int (now - created)"
    using binary64_of_pos_int [OF True assms(1)] by simp
  have age: "accountAgeDays now created = binary64 (of_int (now - created) / 86400000)"
    by (simp add: accountAgeDays_def fdiv_def msPerDay_value exact)
  show ?thesis
  proof
    assume "n * 86400000 < now - created"
    then have "n * 86400000 + 1 \<le> now - created" by simp
    then have "(of_int (n * 86400000 + 1) :: rat) \<le> of_int (now - created)"
      by (simp only: of_int_le_iff)
    then have "of_int n + 1 / 86400000 \<le> (of_int (now - created) :: rat) / 86400000"
      by (simp add: field_simps)
    moreover have "(1 :: rat) / 2 ^ 27 \<le> 1 / 86400000" by simp
    ultimately have "of_int n + 1 / 2 ^ 27 \<le> (of_int (now - created) :: rat) / 86400000"
      by linarith
    from binary64_gt_int [OF this] assms(2,3) show "of_int n < accountAgeDays now created"
      by (simp add: age)
  next
    assume gt: "of_int n < accountAgeDays now created"
    show "n * 86400000 < now - created"
    proof (rule ccontr)
      assume "\<not> n * 86400000 < now - created"
      then have "now - created \<le> n * 86400000" by simp
      then have "(of_int (now - created) :: rat) \<le> of_int (n * 86400000)"
        by (simp only: of_int_le_iff)
      then have "(of_int (now - created) :: rat) / 86400000 \<le> of_int n"
        by (simp add: field_simps)
      from binary64_le_int [OF this] assms(2,3) have "accountAgeDays now created \<le> of_int n"
        by (simp add: age)
      with gt show False by simp
    qed
  qed
qed

section \<open>The two ways out of scan\<close>

lemma guard_invalid: "invalid_text v \<Longrightarrow> \<not> truthy v \<or> \<not> isString v"
  by (cases v) (simp_all add: invalid_text_def)

lemma guard_valid: "\<not> invalid_text v \<Longrightarrow> \<not> (\<not> truthy v \<or> \<not> isString v)"
  by (cases v) (simp_all add: invalid_text_def)

lemma scan_invalid:
  "invalid_text text \<Longrightarrow>
   scan e text userId ctx =
     \<lparr>status = REJECT,
      scores = \<lparr>phi_score = 0, spam_score = 0, sales_pitch_score = 0,
                toxicity_score = 0, link_risk_score = 0, user_trust_score = 0\<rparr>,
      flags = [], detectedSpans = [], reason = Some ''Invalid input'',
      timestamp = None, result_context = None\<rparr>"
  unfolding scan_def if_P [OF guard_invalid] by (rule refl)

lemma scan_valid_scores:
  "\<not> invalid_text text \<Longrightarrow>
   scores (scan e text userId ctx) =
     \<lparr>phi_score = score (detectPHI (isValidPhoneNumber e) (asString text)),
      spam_score = score (detectSpam (asString text)),
      sales_pitch_score = score (detectSalesPitch (asString text)),
      toxicity_score = score (detectToxicity (profanityFilter e) text),
      link_risk_score = score (detectLinks (asString text)),
      user_trust_score = (if truthy userId
                          then getUserTrustScore (findById e) (dateNow e) userId
                          else binary64 (5 / 10))\<rparr>"
  unfolding scan_def if_not_P [OF guard_valid] Let_def by simp

lemma scan_valid_status:
  "\<not> invalid_text text \<Longrightarrow>
   status (scan e text userId ctx) = first_match cascade_rules (scores (scan e text userId ctx))"
  unfolding scan_def if_not_P [OF guard_valid] Let_def by (simp add: cascade_rules_def)

lemma scan_valid_stamp:
  "\<not> invalid_text text \<Longrightarrow>
   timestamp (scan e text userId ctx) = Some (newDate e) \<and>
   result_context (scan e text userId ctx) = Some (if ctx = JUndefined then JObject [] else ctx) \<and>
   reason (scan e text userId ctx) = None"
  unfolding scan_def if_not_P [OF guard_valid] Let_def by simp

lemma first_match_toxic:
  "0 < toxicity_score s \<Longrightarrow> first_match cascade_rules s = REJECT"
  by (simp add: cascade_rules_def)

section \<open>Toxicity, trust and the worked examples\<close>

lemma detectToxicity_invalid:
  "invalid_text text \<Longrightarrow> detectToxicity pf text = \<lparr>score = 0, isProfane = False\<rparr>"
  unfolding detectToxicity_def if_P [OF guard_invalid] by (rule refl)

lemma detectToxicity_valid:
  "s \<noteq> [] \<Longrightarrow>
   detectToxicity pf (JString s) =
     (if pf s = Some True \<or> hasObfuscatedProfanity s \<or> hasDirectProfanity s
      then \<lparr>score = 1, isProfane = True\<rparr> else \<lparr>score = 0, isProfane = False\<rparr>)"
  by (cases "pf s") (auto simp: detectToxicity_def Let_def)


lemma shit_obfuscated: "hasObfuscatedProfanity ''sh1t''"
  by code_simp

lemma trust_values:
  "binary64 (7 / 10) = 3152519739159347 / 4503599627370496"
  "fadd (3152519739159347 / 4503599627370496) (binary64 (1 / 10))
     = 7205759403792793 / 9007199254740992"
  "fadd (7205759403792793 / 9007199254740992) (binary64 (1 / 10))
     = 2026619832316723 / 2251799813685248"
  "binary64 (5 / 10) = 1 / 2"
  by code_simp+

lemma getUserTrustScore_cases:
  "getUserTrustScore store now u =
     (case store u of
        LookupFails \<Rightarrow> 1 / 2
      | NoUser \<Rightarrow> 3152519739159347 / 4503599627370496
      | User None \<Rightarrow> 3152519739159347 / 4503599627370496
      | User (Some created) \<Rightarrow>
          if 90 < accountAgeDays now created then 2026619832316723 / 2251799813685248
          else if 30 < accountAgeDays now created then 7205759403792793 / 9007199254740992
          else 3152519739159347 / 4503599627370496)"
  unfolding getUserTrustScore_def Let_def trust_values
  by (auto simp: trust_values split: lookup.split option.split)


lemma phone_matches: "match_global False phone_regex phoneText = [''555-123-4567'']"
  by code_simp

lemma phone_phiLoop:
  "phiLoop phoneText PHI_PATTERNS ([], 0) =
     ([\<lparr>d_type = ''phone'', d_matches = [''555-123-4567''],
        d_weight = 3602879701896397 / 4503599627370496\<rparr>],
      3602879701896397 / 4503599627370496)"
  by code_simp

lemma phone_values:
  "binary64 (9 / 10) = 8106479329266893 / 9007199254740992"
  "fadd (3602879701896397 / 4503599627370496) (8106479329266893 / 9007199254740992)
     = 1914029841632461 / 1125899906842624"
  by code_simp+

lemma phone_sales: "score (detectSalesPitch phoneText) = 0"
  by code_simp

lemma phone_spam: "score (detectSpam phoneText) = 0"
  by code_simp

lemma phone_links: "linkRisk phoneText = 0"
  by code_simp

lemma phone_not_obfuscated: "\<not> hasObfuscatedProfanity phoneText"
  by code_simp

lemma phone_not_direct: "\<not> hasDirectProfanity phoneText"
  by code_simp

lemma phone_total:
  "phiTotal valid phoneText =
     (if valid ''555-123-4567'' ''US'' = Some True
      then ([\<lparr>d_type = ''phone'', d_matches = [''555-123-4567''],
               d_weight = 3602879701896397 / 4503599627370496\<rparr>,
             \<lparr>d_type = ''validated_phone'', d_matches = [''555-123-4567''],
               d_weight = 8106479329266893 / 9007199254740992\<rparr>],
            1914029841632461 / 1125899906842624)
      else ([\<lparr>d_type = ''phone'', d_matches = [''555-123-4567''],
               d_weight = 3602879701896397 / 4503599627370496\<rparr>],
            3602879701896397 / 4503599627370496))"
  unfolding phiTotal_def phone_matches phone_phiLoop
  by (simp add: phone_values)


lemma phoneLoop_adds:
  "snd (phoneLoop valid phones (dets, sc)) =
     foldl (\<lambda>a p. if valid p ''US'' = Some True then fadd a (binary64 (9 / 10)) else a) sc phones"
  by (induction phones arbitrary: dets sc) simp_all


lemma phone_fallbacks:
  "fallback_profanityFilter phoneText = Some False"
  "fallback_isValidPhoneNumber ''555-123-4567'' ''US'' = Some True"
  by code_simp+


lemma test_from_later:
  "mt ic r (lastOr prev pre, rest, []) \<noteq> [] \<Longrightarrow> test_from ic r prev (pre @ rest)"
proof (induction pre arbitrary: prev)
  case Nil
  then show ?case by (cases rest) (simp_all add: lastOr_def)
next
  case (Cons c pre)
  have "lastOr (Some c) pre = lastOr prev (c # pre)" by (simp add: lastOr_def)
  with Cons.prems have "mt ic r (lastOr (Some c) pre, rest, []) \<noteq> []" by simp
  from Cons.IH [OF this] show ?case by simp
qed

lemma mt_rLit_self:
  "mt True (rLit w) (prev, w @ post, caps) = [(lastOr prev w, post, caps)]"
proof (induction w arbitrary: prev)
  case Nil
  show ?case by (simp add: lastOr_def)
next
  case (Cons c w)
  have "lastOr (Some c) w = lastOr prev (c # w)" by (simp add: lastOr_def)
  with Cons.IH [of "Some c"] show ?case
    by (simp add: rChar_def classMatch_def)
qed

lemma wordPattern_matches:
  assumes "w \<noteq> []" "isWordChar (hd w)" "isWordChar (last w)"
    and "\<not> isWordOpt prev" "\<not> isWordOpt (nextChar post)"
  shows "mt True (wordPattern w) (prev, w @ post, []) \<noteq> []"
proof -
  have first: "isWordOpt (nextChar (w @ post))"
    using assms(1,2) by (cases w) (simp_all add: nextChar_def isWordOpt_def)
  have final: "isWordOpt (lastOr prev w)"
    using assms(1,3) by (simp add: lastOr_def isWordOpt_def)
  show ?thesis
    using first final assms(4,5) by (simp add: wordPattern_def mt_rLit_self)
qed


lemma commonProfanity_words:
  "\<forall>w \<in> set commonProfanity. w \<noteq> [] \<and> isWordChar (hd w) \<and> isWordChar (last w)"
  by code_simp

lemma direct_hit:
  assumes "w \<in> set commonProfanity" "standalone_word w text pre post"
  shows "hasDirectProfanity text"
proof -
  from assms(1) commonProfanity_words
  have w: "w \<noteq> []" "isWordChar (hd w)" "isWordChar (last w)" by auto
  from assms(2) have split: "toLowerCase text = pre @ w @ post"
    and l: "pre = [] \<or> \<not> isWordChar (last pre)"
    and r: "post = [] \<or> \<not> isWordChar (hd post)"
    by (simp_all add: standalone_word_def)
  have "\<not> isWordOpt (lastOr None pre)"
    using l by (auto simp: lastOr_def isWordOpt_def)
  moreover have "\<not> isWordOpt (nextChar post)"
    using r by (cases post) (auto simp: nextChar_def isWordOpt_def)
  ultimately have "mt True (wordPattern w) (lastOr None pre, w @ post, []) \<noteq> []"
    using w by (intro wordPattern_matches)
  then have "test True (wordPattern w) (toLowerCase text)"
    unfolding test_def split by (rule test_from_later)
  with assms(1) show ?thesis
    by (auto simp: hasDirectProfanity_def list_ex_iff)
qed


lemma hate_waiting: "standalone_word ''hate'' ''I hate waiting'' ''i '' '' waiting''"
  by code_simp

lemma kill_process: "standalone_word ''kill'' ''Kill the process'' [] '' the process''"
  by code_simp


lemma hello_scores:
  "scores (scan (fallbackEnv (\<lambda>u. NoUser) 1767225600000) (JString ''hello'')
             JUndefined JUndefined) =
     \<lparr>phi_score = 0, spam_score = 0, sales_pitch_score = 0, toxicity_score = 0,
      link_risk_score = 0, user_trust_score = 1 / 2\<rparr>"
  by code_simp

lemma hello_allow:
  "first_match cascade_rules
     \<lparr>phi_score = 0, spam_score = 0, sales_pitch_score = 0, toxicity_score = 0,
      link_risk_score = 0, user_trust_score = 1 / 2\<rparr> = ALLOW"
  by code_simp

lemma f4ck_facts:
  "normalizeTextForDetection ''f4ck'' = ''fack''"
  "\<not> checkProfanityPatterns ''fack''"
  "\<not> hasObfuscatedProfanity ''f4ck''"
  "\<not> hasDirectProfanity ''f4ck''"
  "fallback_profanityFilter ''f4ck'' = Some False"
  by code_simp+

lemma spaced_obfuscated: "hasObfuscatedProfanity ''f u c k''"
  by code_simp

lemma sanitize_example: "sanitizeInput ''<script>alert(1)</script>Hello'' = ''Hello''"
  by code_simp

text \<open>The two examples that the comment above \<^verbatim>\<open>detectToxicity\<close> gives for special
  characters and for leet speak, \<^verbatim>\<open>f*ck\<close> and \<^verbatim>\<open>f0ck\<close>, are normalised to \<open>fck\<close> and
  \<open>fock\<close>; the pattern list has neither.\<close>

lemma docstring_examples_undetected:
  "normalizeTextForDetection ''f*ck'' = ''fck'' \<and>
   normalizeTextForDetection ''f0ck'' = ''fock'' \<and>
   score (detectToxicity fallback_profanityFilter (JString ''f*ck'')) = 0 \<and>
   score (detectToxicity fallback_profanityFilter (JString ''f0ck'')) = 0"
  by code_simp

lemma obfuscated_variants_detected:
  "score (detectToxicity pf (JString ''f u c k'')) = 1 \<and>
   score (detectToxicity pf (JString ''sh1t'')) = 1"
  by (simp add: detectToxicity_valid spaced_obfuscated shit_obfuscated)

section \<open>Claims about the decision engine\<close>

text \<open>
  Claim C1. For every valid text (a non-empty string), the status that \<open>scan\<close> returns is
  the one the ordered, first-match-wins cascade of the specification selects on the score
  vector of the same result: toxicity above 0 rejects, then PHI above 0.5 quarantines,
  then a sales pitch above 0.7 with trust below 0.5 rejects, then spam above 0.7
  quarantines, then the two combined conditions quarantine, then the moderate risks
  soft-block, and what is left is allowed. In particular a toxicity score above 0 gives
  \<open>REJECT\<close> whatever the other scores are.
\<close>

theorem scan_status_cascade:
  "s \<noteq> [] \<Longrightarrow>
   status (scan e (JString s) userId ctx)
     = first_match cascade_rules (scores (scan e (JString s) userId ctx)) \<and>
   (0 < toxicity_score (scores (scan e (JString s) userId ctx)) \<longrightarrow>
      status (scan e (JString s) userId ctx) = REJECT)"
proof -
  assume "s \<noteq> []"
  then have valid: "\<not> invalid_text (JString s)" by (simp add: invalid_text_def)
  have eq: "status (scan e (JString s) userId ctx)
      = first_match cascade_rules (scores (scan e (JString s) userId ctx))"
    by (rule scan_valid_status [OF valid])
  show ?thesis
    using eq first_match_toxic by simp
qed

theorem scan_status_cascade_witness:
  "''sh1t'' \<noteq> [] \<and> ''hello'' \<noteq> [] \<and>
   status (scan (fallbackEnv (\<lambda>u. NoUser) 1767225600000) (JString ''sh1t'')
             JUndefined JUndefined) = REJECT \<and>
   status (scan (fallbackEnv (\<lambda>u. NoUser) 1767225600000) (JString ''hello'')
             JUndefined JUndefined) = ALLOW"
proof -
  have a: "''sh1t'' \<noteq> []" and b: "''hello'' \<noteq> []" by simp_all
  have valid: "\<not> invalid_text (JString ''sh1t'')" by (simp add: invalid_text_def)
  have toxic: "0 < toxicity_score (scores (scan (fallbackEnv (\<lambda>u. NoUser) 1767225600000)
      (JString ''sh1t'') JUndefined JUndefined))"
    by (simp add: scan_valid_scores [OF valid] detectToxicity_valid [OF a] shit_obfuscated)
  have r: "status (scan (fallbackEnv (\<lambda>u. NoUser) 1767225600000) (JString ''sh1t'')
      JUndefined JUndefined) = REJECT"
    using toxic scan_status_cascade [OF a, of "fallbackEnv (\<lambda>u. NoUser) 1767225600000"
        JUndefined JUndefined]
    by blast
  have "status (scan (fallbackEnv (\<lambda>u. NoUser) 1767225600000) (JString ''hello'')
      JUndefined JUndefined)
    = first_match cascade_rules (scores (scan (fallbackEnv (\<lambda>u. NoUser) 1767225600000)
        (JString ''hello'') JUndefined JUndefined))"
    using scan_status_cascade [OF b, of "fallbackEnv (\<lambda>u. NoUser) 1767225600000"
        JUndefined JUndefined]
    by blast
  then have "status (scan (fallbackEnv (\<lambda>u. NoUser) 1767225600000) (JString ''hello'')
      JUndefined JUndefined) = ALLOW"
    by (simp only: hello_scores hello_allow)
  with a b r show ?thesis by blast
qed

text \<open>
  Claim C2. For every input of \<open>scan\<close>, valid or not, with or without a user id, each of
  the six scores of the result lies in the closed interval from 0 to 1.
\<close>

theorem scan_scores_in_range: "scores_in_range (scores (scan e text userId ctx))"
proof (cases "invalid_text text")
  case True
  then show ?thesis by (simp add: scan_invalid scores_in_range_def in_unit_def)
next
  case False
  then show ?thesis
    by (simp add: scan_valid_scores scores_in_range_def in_unit_def detectPHI_range
        detectSpam_range detectSalesPitch_range detectToxicity_range detectLinks_range
        getUserTrustScore_range half_exact)
qed

theorem scan_scores_in_range_witness:
  "scores_in_range (scores (scan (fallbackEnv (\<lambda>u. NoUser) 1767225600000)
      (JString ''hello'') JUndefined JUndefined)) \<and>
   scores_in_range \<lparr>phi_score = 0, spam_score = 0, sales_pitch_score = 0, toxicity_score = 0,
      link_risk_score = 0, user_trust_score = 1 / 2\<rparr>"
  using scan_scores_in_range [of "fallbackEnv (\<lambda>u. NoUser) 1767225600000"
      "JString ''hello''" JUndefined JUndefined]
  by (simp add: hello_scores)

section \<open>Claims about the toxicity detector\<close>

text \<open>
  Claim C3. For every text, \<open>detectToxicity\<close> returns the score 0 or the score 1 and
  nothing in between, and \<open>isProfane\<close> is true exactly when the score is 1. On a valid
  text (a non-empty string) the score is 1 if and only if one of the three signals fires:
  the dictionary answers ``profane'', the normalised text matches the pattern list, or
  the lower-cased text holds a word of the direct list between word boundaries. A
  dictionary that fails (\<open>None\<close>) changes nothing else: the detector returns, and the
  score is 1 exactly when one of the other two signals fires. On any other text the score
  is 0.
\<close>

theorem detectToxicity_binary:
  "(score (detectToxicity pf text) = 0 \<or> score (detectToxicity pf text) = 1) \<and>
   (isProfane (detectToxicity pf text) \<longleftrightarrow> score (detectToxicity pf text) = 1) \<and>
   (invalid_text text \<longrightarrow> score (detectToxicity pf text) = 0) \<and>
   (s \<noteq> [] \<longrightarrow>
      (score (detectToxicity pf (JString s)) = 1 \<longleftrightarrow>
         pf s = Some True \<or> hasObfuscatedProfanity s \<or> hasDirectProfanity s)) \<and>
   (s \<noteq> [] \<and> pf s = None \<longrightarrow>
      (score (detectToxicity pf (JString s)) = 1 \<longleftrightarrow>
         hasObfuscatedProfanity s \<or> hasDirectProfanity s))"
proof -
  have shape: "detectToxicity pf text = \<lparr>score = 0, isProfane = False\<rparr> \<or>
      detectToxicity pf text = \<lparr>score = 1, isProfane = True\<rparr>"
  proof (cases "invalid_text text")
    case True
    then show ?thesis by (simp add: detectToxicity_invalid)
  next
    case False
    then obtain t where "text = JString t" "t \<noteq> []"
      by (cases "text") (auto simp: invalid_text_def)
    then show ?thesis by (simp add: detectToxicity_valid)
  qed
  have one: "score (detectToxicity pf text) = 0 \<or> score (detectToxicity pf text) = 1"
    using shape by auto
  have two: "isProfane (detectToxicity pf text) \<longleftrightarrow> score (detectToxicity pf text) = 1"
    using shape by auto
  show ?thesis
    using one two by (auto simp: detectToxicity_valid detectToxicity_invalid)
qed

theorem detectToxicity_binary_witness:
  "invalid_text (JString []) \<and> ''sh1t'' \<noteq> [] \<and>
   score (detectToxicity (\<lambda>t. None) (JString [])) = 0 \<and>
   score (detectToxicity (\<lambda>t. None) (JString ''sh1t'')) = 1 \<and>
   isProfane (detectToxicity (\<lambda>t. None) (JString ''sh1t''))"
proof -
  have a: "invalid_text (JString [])" by (simp add: invalid_text_def)
  have b: "''sh1t'' \<noteq> []" by simp
  show ?thesis
    using a b shit_obfuscated
      detectToxicity_binary [of "\<lambda>t. None" "JString []" "''sh1t''"]
      detectToxicity_binary [of "\<lambda>t. None" "JString ''sh1t''" "''sh1t''"]
    by simp
qed

text \<open>
  Claim C6 fails on one of its three inputs. The texts \<open>f u c k\<close> and \<open>sh1t\<close> are
  normalised to \<open>fuck\<close> and \<open>shit\<close> and get the score 1 whatever the dictionary says
  (lemma \<open>obfuscated_variants_detected\<close>). The text \<open>f4ck\<close> is normalised to \<open>fack\<close>,
  because \<open>4\<close> is read as \<open>a\<close>; no pattern of the list occurs in it, the direct list does
  not match, and so the score is 0 unless the dictionary itself knows the text. With the
  filter the source falls back to, the score is 0.
\<close>

theorem leet_f4ck_undetected:
  "normalizeTextForDetection ''f4ck'' = ''fack'' \<and>
   \<not> checkProfanityPatterns ''fack'' \<and>
   \<not> hasDirectProfanity ''f4ck'' \<and>
   score (detectToxicity fallback_profanityFilter (JString ''f4ck'')) = 0 \<and>
   toxicity_score (scores (scan (fallbackEnv (\<lambda>u. NoUser) 1767225600000) (JString ''f4ck'')
       JUndefined JUndefined)) = 0 \<and>
   (pf ''f4ck'' \<noteq> Some True \<longrightarrow> score (detectToxicity pf (JString ''f4ck'')) = 0)"
proof -
  have valid: "\<not> invalid_text (JString ''f4ck'')" by (simp add: invalid_text_def)
  have tox: "q ''f4ck'' \<noteq> Some True \<Longrightarrow> score (detectToxicity q (JString ''f4ck'')) = 0" for q
    by (simp add: detectToxicity_valid f4ck_facts)
  have fb: "score (detectToxicity fallback_profanityFilter (JString ''f4ck'')) = 0"
    by (rule tox) (simp add: f4ck_facts)
  have "toxicity_score (scores (scan (fallbackEnv (\<lambda>u. NoUser) 1767225600000)
      (JString ''f4ck'') JUndefined JUndefined)) = 0"
    by (simp add: scan_valid_scores [OF valid] fallbackEnv_def fb)
  then show ?thesis
    using tox fb f4ck_facts by simp
qed

theorem leet_f4ck_undetected_witness:
  "(\<lambda>t. None :: bool option) ''f4ck'' \<noteq> Some True \<and>
   score (detectToxicity (\<lambda>t. None) (JString ''f4ck'')) = 0 \<and>
   score (detectToxicity fallback_profanityFilter (JString ''f4ck'')) \<noteq> 1"
  using leet_f4ck_undetected [of "\<lambda>t. None"] by simp

text \<open>
  Claim C10. When the lower-cased text holds one of the ten words of the direct list
  (fuck, shit, damn, ass, bitch, sex, porn, kill, hate, abuse) as a word of its own, with
  no word character right before or right after it, \<open>detectToxicity\<close> returns the score 1
  whatever the dictionary says, and \<open>scan\<close> returns \<open>REJECT\<close>. Everyday sentences such as
  ``I hate waiting'' are rejected with the rest.
\<close>

theorem direct_word_rejected:
  "w \<in> set commonProfanity \<Longrightarrow> standalone_word w text pre post \<Longrightarrow>
   score (detectToxicity pf (JString text)) = 1 \<and>
   status (scan e (JString text) userId ctx) = REJECT"
proof -
  assume w: "w \<in> set commonProfanity" and sw: "standalone_word w text pre post"
  have hit: "hasDirectProfanity text" using w sw by (rule direct_hit)
  from w commonProfanity_words have "w \<noteq> []" by auto
  with sw have ne: "text \<noteq> []" by (auto simp: standalone_word_def toLowerCase_def)
  then have valid: "\<not> invalid_text (JString text)" by (simp add: invalid_text_def)
  have tox: "score (detectToxicity q (JString text)) = 1" for q
    by (simp add: detectToxicity_valid [OF ne] hit)
  have "0 < toxicity_score (scores (scan e (JString text) userId ctx))"
    by (simp add: scan_valid_scores [OF valid] tox)
  then have "status (scan e (JString text) userId ctx) = REJECT"
    unfolding scan_valid_status [OF valid] by (rule first_match_toxic)
  with tox show ?thesis by simp
qed

theorem direct_word_rejected_witness:
  "''hate'' \<in> set commonProfanity \<and> ''kill'' \<in> set commonProfanity \<and>
   standalone_word ''hate'' ''I hate waiting'' ''i '' '' waiting'' \<and>
   standalone_word ''kill'' ''Kill the process'' [] '' the process'' \<and>
   status (scan (fallbackEnv (\<lambda>u. NoUser) 1767225600000) (JString ''I hate waiting'')
             JUndefined JUndefined) = REJECT \<and>
   status (scan (fallbackEnv (\<lambda>u. NoUser) 1767225600000) (JString ''Kill the process'')
             JUndefined JUndefined) = REJECT"
proof -
  have a: "''hate'' \<in> set commonProfanity" and b: "''kill'' \<in> set commonProfanity"
    by (simp_all add: commonProfanity_def)
  show ?thesis
    using a b hate_waiting kill_process
      direct_word_rejected [OF a hate_waiting] direct_word_rejected [OF b kill_process]
    by blast
qed

section \<open>Claims about the trust score\<close>

text \<open>
  Claim C5, as amended. \<open>getUserTrustScore\<close> starts from 0.7, adds 0.1 when the account
  age in days is above 30 and a further 0.1 when it is above 90, and caps the sum at 1;
  as doubles the three possible results are 0.7, 0.7999999999999999 and
  0.8999999999999999, so the cap never acts. The rounded age in days is above 30 (above
  90) exactly when the creation time lies more than 30 (90) times 86400000 milliseconds
  before the clock reading. When the lookup finds no user record, or a record without a
  creation time, the result is the base 0.7. The default 0.5 is used when the lookup
  fails, and by \<open>scan\<close> on a valid text when the user id is missing (or any other falsy
  value).
\<close>

theorem trust_score_by_lookup:
  "(s \<noteq> [] \<and> \<not> truthy userId \<longrightarrow>
      user_trust_score (scores (scan e (JString s) userId ctx)) = 1 / 2) \<and>
   (s \<noteq> [] \<and> truthy userId \<longrightarrow>
      user_trust_score (scores (scan e (JString s) userId ctx))
        = getUserTrustScore (findById e) (dateNow e) userId) \<and>
   (store u = LookupFails \<longrightarrow> getUserTrustScore store now u = 1 / 2) \<and>
   (store u = NoUser \<or> store u = User None \<longrightarrow>
      getUserTrustScore store now u = 3152519739159347 / 4503599627370496) \<and>
   (store u = User (Some created) \<longrightarrow>
      getUserTrustScore store now u =
        (if 90 < accountAgeDays now created then 2026619832316723 / 2251799813685248
         else if 30 < accountAgeDays now created then 7205759403792793 / 9007199254740992
         else 3152519739159347 / 4503599627370496)) \<and>
   (store u = User (Some created) \<and> now - created < 2 ^ 53 \<longrightarrow>
      getUserTrustScore store now u =
        (if 90 * 86400000 < now - created then 2026619832316723 / 2251799813685248
         else if 30 * 86400000 < now - created then 7205759403792793 / 9007199254740992
         else 3152519739159347 / 4503599627370496))"
proof -
  have valid: "s \<noteq> [] \<Longrightarrow> \<not> invalid_text (JString s)" by (simp add: invalid_text_def)
  have sc: "s \<noteq> [] \<Longrightarrow> user_trust_score (scores (scan e (JString s) userId ctx)) =
      (if truthy userId then getUserTrustScore (findById e) (dateNow e) userId else 1 / 2)"
    using scan_valid_scores [OF valid, of e userId ctx] by (simp add: half_exact)
  have d30: "now - created < 2 ^ 53 \<Longrightarrow>
      30 < accountAgeDays now created \<longleftrightarrow> 30 * 86400000 < now - created"
    using accountAgeDays_threshold [of now created 30] by simp
  have d90: "now - created < 2 ^ 53 \<Longrightarrow>
      90 < accountAgeDays now created \<longleftrightarrow> 90 * 86400000 < now - created"
    using accountAgeDays_threshold [of now created 90] by simp
  have ms: "store u = User (Some created) \<Longrightarrow> now - created < 2 ^ 53 \<Longrightarrow>
      getUserTrustScore store now u =
        (if 90 * 86400000 < now - created then 2026619832316723 / 2251799813685248
         else if 30 * 86400000 < now - created then 7205759403792793 / 9007199254740992
         else 3152519739159347 / 4503599627370496)"
    unfolding getUserTrustScore_cases using d30 d90 by simp
  show ?thesis
    using sc ms by (auto simp: getUserTrustScore_cases)
qed

theorem trust_score_by_lookup_witness:
  "''hello'' \<noteq> [] \<and> \<not> truthy JUndefined \<and> truthy (JString ''u1'') \<and>
   (1767225600000 :: int) - 1764547200000 < 2 ^ 53 \<and>
   user_trust_score (scores (scan (fallbackEnv (\<lambda>u. LookupFails) 1767225600000)
       (JString ''hello'') JUndefined JUndefined)) = 1 / 2 \<and>
   user_trust_score (scores (scan (fallbackEnv (\<lambda>u. LookupFails) 1767225600000)
       (JString ''hello'') (JString ''u1'') JUndefined)) = 1 / 2 \<and>
   getUserTrustScore (\<lambda>u. User (Some 1764547200000)) 1767225600000 (JString ''u1'')
     = 7205759403792793 / 9007199254740992"
proof -
  have a: "''hello'' \<noteq> []" by simp
  show ?thesis
    using a
      trust_score_by_lookup [of "''hello''" JUndefined
        "fallbackEnv (\<lambda>u. LookupFails) 1767225600000" JUndefined
        "\<lambda>u. LookupFails" "JString ''u1''" 1767225600000 0]
      trust_score_by_lookup [of "''hello''" "JString ''u1''"
        "fallbackEnv (\<lambda>u. LookupFails) 1767225600000" JUndefined
        "\<lambda>u. User (Some 1764547200000)" "JString ''u1''" 1767225600000 1764547200000]
    by (simp add: fallbackEnv_def)
qed

text \<open>Claim C5 as the specification states it fails when the user record is missing: the
  lookup answers \<^verbatim>\<open>null\<close>, nothing is thrown, and the score that \<open>scan\<close> uses is the base
  0.7 and not the default 0.5.\<close>

theorem missing_user_trust_is_base:
  "user_trust_score (scores (scan (fallbackEnv (\<lambda>u. NoUser) 1767225600000)
       (JString ''hello'') (JString ''u1'') JUndefined))
     = 3152519739159347 / 4503599627370496 \<and>
   user_trust_score (scores (scan (fallbackEnv (\<lambda>u. NoUser) 1767225600000)
       (JString ''hello'') (JString ''u1'') JUndefined)) \<noteq> 1 / 2"
proof -
  have valid: "\<not> invalid_text (JString ''hello'')" by (simp add: invalid_text_def)
  have "user_trust_score (scores (scan (fallbackEnv (\<lambda>u. NoUser) 1767225600000)
       (JString ''hello'') (JString ''u1'') JUndefined))
     = 3152519739159347 / 4503599627370496"
    using scan_valid_scores [OF valid, of "fallbackEnv (\<lambda>u. NoUser) 1767225600000"
        "JString ''u1''" JUndefined]
    by (simp add: fallbackEnv_def getUserTrustScore_cases)
  then show ?thesis by simp
qed

section \<open>Claims about the PHI detector\<close>

text \<open>
  Claim C7. For the text ``Call me at 555-123-4567'' the PHI score is above 0.5, and the
  status is \<open>QUARANTINE\<close> as long as the dictionary does not call the text profane (the
  other two toxicity signals do not fire on it). The phone pattern alone gives the total
  0.8; when the validator accepts the number, the validated-phone bonus 0.9 is added to
  the same running total, which is then 1.7000000000000002 before the cap and 1 after
  it, with both detections recorded. For every text the running total before the cap is
  the sum over the pattern table plus 0.9 for each phone-shaped match the validator
  accepts.
\<close>

theorem phone_number_quarantined:
  "profanityFilter e phoneText \<noteq> Some True \<Longrightarrow>
   binary64 (5 / 10) < phi_score (scores (scan e (JString phoneText) userId ctx)) \<and>
   status (scan e (JString phoneText) userId ctx) = QUARANTINE \<and>
   (isValidPhoneNumber e ''555-123-4567'' ''US'' = Some True \<longrightarrow>
      snd (phiTotal (isValidPhoneNumber e) phoneText)
        = fadd (binary64 (8 / 10)) (binary64 (9 / 10)) \<and>
      1 < snd (phiTotal (isValidPhoneNumber e) phoneText) \<and>
      map d_type (detections (detectPHI (isValidPhoneNumber e) phoneText))
        = [''phone'', ''validated_phone''] \<and>
      phi_score (scores (scan e (JString phoneText) userId ctx)) = 1) \<and>
   (isValidPhoneNumber e ''555-123-4567'' ''US'' \<noteq> Some True \<longrightarrow>
      phi_score (scores (scan e (JString phoneText) userId ctx)) = binary64 (8 / 10)) \<and>
   snd (phiTotal valid text) =
     foldl (\<lambda>a p. if valid p ''US'' = Some True then fadd a (binary64 (9 / 10)) else a)
       (snd (phiLoop text PHI_PATTERNS ([], 0))) (match_global False phone_regex text)"
proof -
  assume clean: "profanityFilter e phoneText \<noteq> Some True"
  have ne: "phoneText \<noteq> []" by (simp add: phoneText_def)
  then have valid: "\<not> invalid_text (JString phoneText)" by (simp add: invalid_text_def)
  have cs: "binary64 (8 / 10) = 3602879701896397 / 4503599627370496"
    "binary64 (5 / 10) = 1 / 2" "binary64 (7 / 10) = 3152519739159347 / 4503599627370496"
    by code_simp+
  have tox: "score (detectToxicity (profanityFilter e) (JString phoneText)) = 0"
    using clean by (simp add: detectToxicity_valid [OF ne] phone_not_obfuscated phone_not_direct)
  have phi: "score (detectPHI (isValidPhoneNumber e) phoneText) =
      (if isValidPhoneNumber e ''555-123-4567'' ''US'' = Some True then 1
       else 3602879701896397 / 4503599627370496)"
    by (simp add: detectPHI_def phone_total)
  have sc: "scores (scan e (JString phoneText) userId ctx) =
      \<lparr>phi_score = (if isValidPhoneNumber e ''555-123-4567'' ''US'' = Some True then 1
                     else 3602879701896397 / 4503599627370496),
       spam_score = 0, sales_pitch_score = 0, toxicity_score = 0,
       link_risk_score = 0,
       user_trust_score = (if truthy userId
                           then getUserTrustScore (findById e) (dateNow e) userId
                           else binary64 (5 / 10))\<rparr>"
    unfolding scan_valid_scores [OF valid]
    by (simp add: tox phi phone_sales phone_spam detectLinks_def phone_links)
  have st: "status (scan e (JString phoneText) userId ctx) = QUARANTINE"
    unfolding scan_valid_status [OF valid] sc cascade_rules_def cs by simp
  have tot: "snd (phiTotal valid text) =
     foldl (\<lambda>a p. if valid p ''US'' = Some True then fadd a (binary64 (9 / 10)) else a)
       (snd (phiLoop text PHI_PATTERNS ([], 0))) (match_global False phone_regex text)"
    unfolding phiTotal_def
    by (cases "phiLoop text PHI_PATTERNS ([], 0)") (simp add: phoneLoop_adds)
  have a: "binary64 (5 / 10) < phi_score (scores (scan e (JString phoneText) userId ctx))"
    unfolding sc cs by simp
  have b: "isValidPhoneNumber e ''555-123-4567'' ''US'' = Some True \<Longrightarrow>
      snd (phiTotal (isValidPhoneNumber e) phoneText)
        = fadd (binary64 (8 / 10)) (binary64 (9 / 10)) \<and>
      1 < snd (phiTotal (isValidPhoneNumber e) phoneText) \<and>
      map d_type (detections (detectPHI (isValidPhoneNumber e) phoneText))
        = [''phone'', ''validated_phone''] \<and>
      phi_score (scores (scan e (JString phoneText) userId ctx)) = 1"
    unfolding sc cs phone_values detectPHI_def phone_total by simp
  have c: "isValidPhoneNumber e ''555-123-4567'' ''US'' \<noteq> Some True \<Longrightarrow>
      phi_score (scores (scan e (JString phoneText) userId ctx)) = binary64 (8 / 10)"
    unfolding sc cs by simp
  show ?thesis
    using a st b c tot by blast
qed

theorem phone_number_quarantined_witness:
  "profanityFilter (fallbackEnv (\<lambda>u. NoUser) 1767225600000) phoneText \<noteq> Some True \<and>
   status (scan (fallbackEnv (\<lambda>u. NoUser) 1767225600000) (JString phoneText)
             JUndefined JUndefined) = QUARANTINE \<and>
   phi_score (scores (scan (fallbackEnv (\<lambda>u. NoUser) 1767225600000) (JString phoneText)
             JUndefined JUndefined)) = 1"
proof -
  have a: "profanityFilter (fallbackEnv (\<lambda>u. NoUser) 1767225600000) phoneText \<noteq> Some True"
    by (simp add: fallbackEnv_def phone_fallbacks)
  have b: "isValidPhoneNumber (fallbackEnv (\<lambda>u. NoUser) 1767225600000) ''555-123-4567'' ''US''
      = Some True"
    by (simp add: fallbackEnv_def phone_fallbacks)
  show ?thesis
    using a b phone_number_quarantined [OF a, of JUndefined JUndefined] by blast
qed

section \<open>Claims about the sanitizer\<close>

text \<open>
  Claim C8. The sanitizer is idempotent: for every string (of code units below 256, as
  everywhere in this file), sanitizing the sanitized text gives the sanitized text. After the tags are stripped no opening angle bracket is
  left, so on a second pass neither pattern matches any more, and trimming a trimmed text
  changes nothing.
\<close>

theorem sanitizeInput_idempotent: "sanitizeInput (sanitizeInput x) = sanitizeInput x"
proof -
  let ?y = "replace_global False tag_regex [] (replace_global True script_block_regex [] x)"
  have "CHR ''<'' \<notin> set ?y"
    by (rule strip_tags_global_no_lt)
  then have clean: "CHR ''<'' \<notin> set (trim ?y)"
    using trim_subset by blast
  have "replace_global True script_block_regex [] (trim ?y) = trim ?y"
    by (rule replace_global_without_lt [OF script_block_regex_starts clean])
  moreover have "replace_global False tag_regex [] (trim ?y) = trim ?y"
    by (rule replace_global_without_lt [OF tag_regex_starts clean])
  ultimately show ?thesis
    by (simp add: sanitizeInput_def trim_idem)
qed

theorem sanitizeInput_idempotent_witness:
  "sanitizeInput (sanitizeInput ''<script>alert(1)</script>Hello'') = ''Hello''"
  using sanitizeInput_idempotent [of "''<script>alert(1)</script>Hello''"]
  by (simp add: sanitize_example)

section \<open>Claims about the shape of the result\<close>

text \<open>
  Claim C4. When the text is missing, not a string, or the empty string, \<open>scan\<close> returns
  (it has no other way out) the result with status \<open>REJECT\<close>, the six scores 0, no flags,
  no detected spans and the reason ``Invalid input''.
\<close>

theorem scan_invalid_input:
  "invalid_text text \<Longrightarrow>
   status (scan e text userId ctx) = REJECT \<and>
   scores (scan e text userId ctx) =
     \<lparr>phi_score = 0, spam_score = 0, sales_pitch_score = 0,
      toxicity_score = 0, link_risk_score = 0, user_trust_score = 0\<rparr> \<and>
   flags (scan e text userId ctx) = [] \<and>
   detectedSpans (scan e text userId ctx) = [] \<and>
   reason (scan e text userId ctx) = Some ''Invalid input''"
  by (simp add: scan_invalid)

theorem scan_invalid_input_witness:
  "invalid_text JUndefined \<and> invalid_text (JNumber 42) \<and> invalid_text (JString []) \<and>
   status (scan (fallbackEnv (\<lambda>u. NoUser) 0) JUndefined JUndefined JUndefined) = REJECT \<and>
   status (scan (fallbackEnv (\<lambda>u. NoUser) 0) (JNumber 42) (JString ''u1'') JNull) = REJECT \<and>
   reason (scan (fallbackEnv (\<lambda>u. NoUser) 0) (JString []) JUndefined JUndefined)
     = Some ''Invalid input''"
proof -
  have a: "invalid_text JUndefined" and b: "invalid_text (JNumber 42)"
    and c: "invalid_text (JString [])"
    by (simp_all add: invalid_text_def)
  show ?thesis
    using a b c scan_invalid_input [OF a] scan_invalid_input [OF b] scan_invalid_input [OF c]
    by simp
qed

text \<open>
  Claim C9, as amended. For every valid text (a non-empty string) the result of \<open>scan\<close>
  carries a time stamp, the instant at which the result was built, and the context the
  caller supplied, unchanged (the empty object when the caller supplied none). The result
  for an invalid text has neither key: it carries a reason instead.
\<close>

theorem scan_stamp_and_context:
  "(s \<noteq> [] \<longrightarrow>
      timestamp (scan e (JString s) userId ctx) = Some (newDate e) \<and>
      result_context (scan e (JString s) userId ctx)
        = Some (if ctx = JUndefined then JObject [] else ctx)) \<and>
   (invalid_text text \<longrightarrow>
      timestamp (scan e text userId ctx) = None \<and>
      result_context (scan e text userId ctx) = None)"
proof -
  have "s \<noteq> [] \<Longrightarrow> \<not> invalid_text (JString s)" by (simp add: invalid_text_def)
  then show ?thesis
    using scan_valid_stamp [of "JString s" e userId ctx] by (auto simp: scan_invalid)
qed

theorem scan_stamp_and_context_witness:
  "''hello'' \<noteq> [] \<and> invalid_text JNull \<and>
   timestamp (scan (fallbackEnv (\<lambda>u. NoUser) 1767225600000) (JString ''hello'') JUndefined
                (JObject [(''type'', JString ''post'')])) = Some 1767225600000 \<and>
   result_context (scan (fallbackEnv (\<lambda>u. NoUser) 1767225600000) (JString ''hello'') JUndefined
                (JObject [(''type'', JString ''post'')]))
     = Some (JObject [(''type'', JString ''post'')]) \<and>
   timestamp (scan (fallbackEnv (\<lambda>u. NoUser) 1767225600000) JNull JUndefined
                (JObject [(''type'', JString ''post'')])) = None"
proof -
  have a: "''hello'' \<noteq> []" by simp
  have b: "invalid_text JNull" by (simp add: invalid_text_def)
  show ?thesis
    using a b
      scan_stamp_and_context [of "''hello''" "fallbackEnv (\<lambda>u. NoUser) 1767225600000"
        JUndefined "JObject [(''type'', JString ''post'')]" JNull]
    by (simp add: fallbackEnv_def)
qed

text \<open>Claim C9 as the specification states it fails on the empty text: the result has
  no time stamp and does not echo the context the caller supplied.\<close>

theorem scan_invalid_no_stamp:
  "timestamp (scan (fallbackEnv (\<lambda>u. NoUser) 1767225600000) (JString [])
                (JString ''u1'') (JObject [(''type'', JString ''post'')])) = None \<and>
   result_context (scan (fallbackEnv (\<lambda>u. NoUser) 1767225600000) (JString [])
                (JString ''u1'') (JObject [(''type'', JString ''post'')]))
     \<noteq> Some (JObject [(''type'', JString ''post'')])"
  by (simp add: scan_def)

end
